theory Spec2Isabelle
  imports Main "HOL-Library.Word" "HOL-Library.Char_ord" "HOL-Library.List_Lexorder"
begin

section \<open>goindex: posting lists, ingestion and the postfix query pipeline\<close>

text \<open>
  A shallow embedding of \<^verbatim>\<open>src/index/index.go\<close> and \<^verbatim>\<open>src/index/query.go\<close>.
  Go's \<^verbatim>\<open>uint32\<close>, \<^verbatim>\<open>int32\<close> and \<^verbatim>\<open>uint64\<close> are words (an \<^verbatim>\<open>int32\<close> is read with
  \<open>sint\<close>; the conversion \<^verbatim>\<open>(uint32)(x)\<close> of an \<^verbatim>\<open>int32\<close> keeps the bits). Go's \<^verbatim>\<open>int\<close>
  (loop counters, buffer cursors, string offsets) never leaves the range of a buffer or
  string length here and is an \<open>int\<close> or a \<open>nat\<close>. A Go \<^verbatim>\<open>string\<close> is a byte sequence,
  as is \<open>string\<close>. Runtime panics and the blocking of a goroutine on a mutex it already
  holds are values of the type \<open>error\<close>.
\<close>

type_synonym uint32 = "32 word"
type_synonym int32 = "32 word"
type_synonym uint64 = "64 word"

datatype error =
    ParseError (Position: int) (Message: string)
  | StackUnderflow
  | NilDereference
  | IndexOutOfRange
  | Deadlock

subsection \<open>index.go: posting chunks, posting sets, the index\<close>

definition ChunkSize :: int32 where
  "ChunkSize = 4096"

text \<open>
  \<^verbatim>\<open>type PostChunk struct { IDs [ChunkSize]uint32; Length int32; Next *PostChunk }\<close>.
  The array is a list of \<open>4096\<close> words; the \<^verbatim>\<open>Next\<close> pointer is an option (\<open>None\<close> is nil).
  Chunks are only ever reached from one posting set, and a query runs against one state
  of the index, so a chunk pointer is modelled by the chunk it points to.
\<close>

datatype PostChunk =
  PostChunk (IDs: "uint32 list") (Length: int32) (Next: "PostChunk option")

definition zeroIDs :: "uint32 list" where
  "zeroIDs = replicate 4096 0"

text \<open>
  \<^verbatim>\<open>type PostSet struct { firstChunk atomic.Value; SyncRoot sync.Mutex }\<close>. The mutex is
  its state: \<open>True\<close> when held.
\<close>

record PostSet =
  firstChunk :: PostChunk
  SyncRoot :: bool

definition NewPostSet :: PostSet where
  "NewPostSet = \<lparr> firstChunk = PostChunk zeroIDs 0 None, SyncRoot = False \<rparr>"

definition FirstChunk :: "PostSet \<Rightarrow> PostChunk" where
  "FirstChunk pset = firstChunk pset"

text \<open>
  \<^verbatim>\<open>PostSet.AddPost(id)\<close>, with \<open>v\<close> for \<^verbatim>\<open>id\<close>: a full head chunk is replaced by a new head holding the id at
  slot 0; otherwise the id is stored at \<^verbatim>\<open>IDs[Length]\<close> (Go checks the index) and the
  length is incremented.
\<close>

definition PostSet_AddPost :: "uint32 \<Rightarrow> PostSet \<Rightarrow> error + PostSet" where
  "PostSet_AddPost v pset =
     (let fc = FirstChunk pset in
      if Length fc = ChunkSize
      then Inr (pset\<lparr>firstChunk := PostChunk (zeroIDs[0 := v]) 1 (Some fc)\<rparr>)
      else if sint (Length fc) < 0 \<or> sint ChunkSize \<le> sint (Length fc)
      then Inl IndexOutOfRange
      else Inr (pset\<lparr>firstChunk :=
                  PostChunk ((IDs fc)[nat (sint (Length fc)) := v]) (Length fc + 1) (Next fc)\<rparr>))"

text \<open>
  \<^verbatim>\<open>type PostIndex struct\<close>. A Go map that is nil is \<open>None\<close>. The \<^verbatim>\<open>*PostSet\<close> pointers held
  in the map are modelled by the map itself: every posting set is created in
  \<^verbatim>\<open>findOrCreateSets\<close> and stored under exactly one term, so a pointer to a set is the term
  it is stored under, and two pointers are the same set exactly when the terms are equal.
  The two \<^verbatim>\<open>RWMutex\<close> fields are taken and released inside one function each, around code
  that cannot block, and have no state between calls.
\<close>

record PostIndex =
  nextLocalId :: int32
  sets :: "(string \<rightharpoonup> PostSet) option"
  idMap :: "(uint32 \<rightharpoonup> uint64) option"

definition emptyIndex :: PostIndex where
  "emptyIndex = \<lparr> nextLocalId = 0, sets = None, idMap = None \<rparr>"

definition findSetChunkForQuery :: "PostIndex \<Rightarrow> string \<Rightarrow> PostChunk option" where
  "findSetChunkForQuery index word =
     (case sets index of
        None \<Rightarrow> None
      | Some m \<Rightarrow> (case m word of Some pset \<Rightarrow> Some (FirstChunk pset) | None \<Rightarrow> None))"

subsection \<open>index.go: ingestion\<close>

text \<open>
  A \<^verbatim>\<open>*PostSet\<close> held in the slice \<^verbatim>\<open>sets\<close>: \<open>None\<close> is nil, \<open>Some w\<close> points to the set
  stored under the term \<open>w\<close>.
\<close>

type_synonym PostSetRef = "string option"

text \<open>Reading and writing a posting set through such a pointer.\<close>

definition deref :: "PostIndex \<Rightarrow> PostSetRef \<Rightarrow> error + PostSet" where
  "deref index p =
     (case p of
        None \<Rightarrow> Inl NilDereference
      | Some w \<Rightarrow>
          (case sets index of
             None \<Rightarrow> Inl NilDereference
           | Some m \<Rightarrow> (case m w of None \<Rightarrow> Inl NilDereference | Some pset \<Rightarrow> Inr pset)))"

definition assign :: "PostIndex \<Rightarrow> string \<Rightarrow> PostSet \<Rightarrow> PostIndex" where
  "assign index w pset =
     index\<lparr>sets := Some ((case sets index of None \<Rightarrow> Map.empty | Some m \<Rightarrow> m)(w \<mapsto> pset))\<rparr>"

text \<open>
  \<^verbatim>\<open>findOrCreateSets\<close>, first pass (under the read lock): look every word up; a miss leaves
  a nil pointer and sets \<^verbatim>\<open>needWrite\<close>. With a nil map nothing is looked up.
\<close>

definition lookupPass :: "PostIndex \<Rightarrow> string list \<Rightarrow> PostSetRef list \<times> bool" where
  "lookupPass index sortedWords =
     (case sets index of
        None \<Rightarrow> (replicate (length sortedWords) None, True)
      | Some m \<Rightarrow>
          (map (\<lambda>w. case m w of None \<Rightarrow> None | Some pset \<Rightarrow> Some w) sortedWords,
           list_ex (\<lambda>w. m w = None) sortedWords))"

text \<open>
  Second pass (under the write lock), for the words whose pointer is still nil: take the
  set another writer has created meanwhile, or create one and store it in the map.
\<close>

fun createPass :: "string list \<Rightarrow> PostSetRef list \<Rightarrow> (string \<rightharpoonup> PostSet) \<Rightarrow>
    PostSetRef list \<times> (string \<rightharpoonup> PostSet)" where
  "createPass (w # ws) (p # ps) m =
     (case p of
        Some x \<Rightarrow> (let (rs, m') = createPass ws ps m in (Some x # rs, m'))
      | None \<Rightarrow>
          (case m w of
             Some pset \<Rightarrow> (let (rs, m') = createPass ws ps m in (Some w # rs, m'))
           | None \<Rightarrow> (let (rs, m') = createPass ws ps (m(w \<mapsto> NewPostSet)) in (Some w # rs, m'))))"
| "createPass ws ps m = ([], m)"

definition findOrCreateSets :: "string list \<Rightarrow> PostIndex \<Rightarrow> PostSetRef list \<times> PostIndex" where
  "findOrCreateSets sortedWords index =
     (let (found, needWrite) = lookupPass index sortedWords in
      if needWrite
      then (let m = (case sets index of None \<Rightarrow> Map.empty | Some m \<Rightarrow> m);
                (rs, m') = createPass sortedWords found m
            in (rs, index\<lparr>sets := Some m'\<rparr>))
      else (found, index))"

definition addIdMapping :: "uint64 \<Rightarrow> uint32 \<Rightarrow> PostIndex \<Rightarrow> PostIndex" where
  "addIdMapping globalId localId index =
     index\<lparr>idMap := Some ((case idMap index of None \<Rightarrow> Map.empty | Some m \<Rightarrow> m)(localId \<mapsto> globalId))\<rparr>"

text \<open>
  The first loop of \<^verbatim>\<open>AddPost\<close>: \<^verbatim>\<open>v.SyncRoot.Lock()\<close> for every pointer in order. A
  \<^verbatim>\<open>sync.Mutex\<close> is not reentrant: locking a mutex that is held blocks until it is released,
  and here nothing releases it (the unlocks are deferred to the return of \<^verbatim>\<open>AddPost\<close>), so the
  call never returns. That outcome is the value \<open>Deadlock\<close>.
\<close>

fun lockAll :: "PostSetRef list \<Rightarrow> PostIndex \<Rightarrow> error + PostIndex" where
  "lockAll [] index = Inr index"
| "lockAll (p # ps) index =
     (case deref index p of
        Inl e \<Rightarrow> Inl e
      | Inr pset \<Rightarrow>
          if SyncRoot pset then Inl Deadlock
          else lockAll ps (assign index (the p) (pset\<lparr>SyncRoot := True\<rparr>)))"

text \<open>The second loop: \<^verbatim>\<open>v.AddPost(localId)\<close> for every pointer in order.\<close>

fun appendAll :: "PostSetRef list \<Rightarrow> uint32 \<Rightarrow> PostIndex \<Rightarrow> error + PostIndex" where
  "appendAll [] localId index = Inr index"
| "appendAll (p # ps) localId index =
     (case deref index p of
        Inl e \<Rightarrow> Inl e
      | Inr pset \<Rightarrow>
          (case PostSet_AddPost localId pset of
             Inl e \<Rightarrow> Inl e
           | Inr pset' \<Rightarrow> appendAll ps localId (assign index (the p) pset')))"

text \<open>The deferred \<^verbatim>\<open>v.SyncRoot.Unlock()\<close> calls, run at the return in reverse order.\<close>

fun unlockAll :: "PostSetRef list \<Rightarrow> PostIndex \<Rightarrow> error + PostIndex" where
  "unlockAll [] index = Inr index"
| "unlockAll (p # ps) index =
     (case deref index p of
        Inl e \<Rightarrow> Inl e
      | Inr pset \<Rightarrow> unlockAll ps (assign index (the p) (pset\<lparr>SyncRoot := False\<rparr>)))"

text \<open>
  \<^verbatim>\<open>PostIndex.AddPost(id, words)\<close>. \<^verbatim>\<open>sort.Strings\<close> orders strings bytewise, as the order on
  \<open>string\<close> does. \<^verbatim>\<open>atomic.AddInt32(&index.nextLocalId, 1)\<close> returns the incremented counter
  (wrapping around), which is the new local id.
\<close>

definition PostIndex_AddPost :: "uint64 \<Rightarrow> string list \<Rightarrow> PostIndex \<Rightarrow> error + PostIndex" where
  "PostIndex_AddPost globalId words index =
     (let sortedWords = sort words;
          (refs, index1) = findOrCreateSets sortedWords index
      in case lockAll refs index1 of
           Inl e \<Rightarrow> Inl e
         | Inr index2 \<Rightarrow>
             (let localId = nextLocalId index2 + 1;
                  index3 = index2\<lparr>nextLocalId := localId\<rparr>;
                  index4 = addIdMapping globalId localId index3
              in case appendAll refs localId index4 of
                   Inl e \<Rightarrow> Inl e
                 | Inr index5 \<Rightarrow> unlockAll (rev refs) index5))"

text \<open>A sequence of \<^verbatim>\<open>AddPost\<close> calls made one after the other, each \<open>(id, words)\<close>.\<close>

fun AddPosts :: "(uint64 \<times> string list) list \<Rightarrow> PostIndex \<Rightarrow> error + PostIndex" where
  "AddPosts [] index = Inr index"
| "AddPosts ((globalId, words) # calls) index =
     (case PostIndex_AddPost globalId words index of
        Inl e \<Rightarrow> Inl e
      | Inr index' \<Rightarrow> AddPosts calls index')"

text \<open>
  The ids a chain of chunks holds, oldest first: the older chunks, then the valid prefix
  \<^verbatim>\<open>IDs[0:Length]\<close> of this one.
\<close>

fun posting :: "PostChunk \<Rightarrow> uint32 list" where
  "posting (PostChunk ids len nxt) =
     (case nxt of None \<Rightarrow> [] | Some c \<Rightarrow> posting c) @ take (nat (sint len)) ids"

text \<open>The posting list of a term: empty when the term has no set.\<close>

definition postingList :: "PostIndex \<Rightarrow> string \<Rightarrow> uint32 list" where
  "postingList index w =
     (case findSetChunkForQuery index w of None \<Rightarrow> [] | Some c \<Rightarrow> posting c)"

subsection \<open>query.go: operators and query nodes\<close>

definition beforeStartedLength :: int where
  "beforeStartedLength = 0"

definition doneLength :: int where
  "doneLength = - 1"

definition queryBufferSize :: int where
  "queryBufferSize = 128"

text \<open>
  The three implementations of the interface \<^verbatim>\<open>QueryOperator\<close> and the frame
  \<^verbatim>\<open>QueryNode\<close> that wraps an operator. The selector of the field \<^verbatim>\<open>length\<close> is
  \<open>node_length\<close>.
\<close>

datatype QueryOperator =
    TerminalOperator (Current: "PostChunk option") (ChunkCursor: int32)
  | AndOperator (Left: QueryNode) (Right: QueryNode)
  | OrOperator (Left: QueryNode) (Right: QueryNode)
and QueryNode =
    QueryNode (buffer: "uint32 list") (node_length: int) (cursor: int) (op: QueryOperator)

definition zeroBuffer :: "uint32 list" where
  "zeroBuffer = replicate 128 0"

text \<open>\<^verbatim>\<open>QueryNode{op: opr}\<close>: every other field has its zero value.\<close>

definition newQueryNode :: "QueryOperator \<Rightarrow> QueryNode" where
  "newQueryNode opr = QueryNode zeroBuffer 0 0 opr"

definition NewAndOperator :: "QueryOperator \<Rightarrow> QueryOperator \<Rightarrow> QueryOperator" where
  "NewAndOperator left right = AndOperator (newQueryNode left) (newQueryNode right)"

definition NewOrOperator :: "QueryOperator \<Rightarrow> QueryOperator \<Rightarrow> QueryOperator" where
  "NewOrOperator left right = OrOperator (newQueryNode left) (newQueryNode right)"

subsection \<open>query.go: the executor\<close>

text \<open>
  \<^verbatim>\<open>NextChunk(buffer [queryBufferSize]uint32) int\<close> takes a Go array, and a Go array is a
  value: the callee works on its own copy of the caller's buffer, and the caller's array
  is what it was before the call. The model returns the callee's copy next to the count, so
  that what the operator wrote can be stated; no caller in \<^verbatim>\<open>query.go\<close> can read it.

  \<^verbatim>\<open>TerminalOperator.NextChunk\<close>: the loop, from \<^verbatim>\<open>i\<close>. With a negative cursor it moves to
  \<^verbatim>\<open>Current.Next\<close> and reads \<^verbatim>\<open>op.Current.Length\<close> without a nil check: on the last chunk that is
  a nil dereference. \<^verbatim>\<open>IDs[op.ChunkCursor]\<close> is an index into an array of \<^verbatim>\<open>ChunkSize\<close>.
  The result is the callee's buffer, the count, and the operator's new fields.
\<close>

function TerminalOperator_loop ::
    "PostChunk option \<Rightarrow> int32 \<Rightarrow> uint32 list \<Rightarrow> int \<Rightarrow>
     error + (uint32 list \<times> int \<times> PostChunk option \<times> int32)" where
  "TerminalOperator_loop cur cc buf i =
     (if i < queryBufferSize \<and> cur \<noteq> None then
        (case cur of
           None \<Rightarrow> Inr (buf, i, cur, cc)
         | Some c \<Rightarrow>
             (case (if sint cc < 0
                    then (case Next c of
                            None \<Rightarrow> Inl NilDereference
                          | Some n \<Rightarrow> Inr (n, Length n - 1))
                    else Inr (c, cc)) of
                Inl e \<Rightarrow> Inl e
              | Inr (c', cc') \<Rightarrow>
                  if sint cc' < 0 \<or> sint ChunkSize \<le> sint cc' \<or> i < 0
                  then Inl IndexOutOfRange
                  else TerminalOperator_loop (Some c') (cc' - 1)
                         (buf[nat i := IDs c' ! nat (sint cc')]) (i + 1)))
      else Inr (buf, i, cur, cc))"
  by pat_completeness auto
termination
  by (relation "measure (\<lambda>(cur, cc, buf, i). nat (queryBufferSize - i))") auto

declare TerminalOperator_loop.simps [simp del]

definition TerminalOperator_NextChunk ::
    "PostChunk option \<Rightarrow> int32 \<Rightarrow> uint32 list \<Rightarrow>
     error + (uint32 list \<times> int \<times> PostChunk option \<times> int32)" where
  "TerminalOperator_NextChunk cur cc buf = TerminalOperator_loop cur cc buf 0"

text \<open>\<^verbatim>\<open>QueryNode.Current\<close>, \<^verbatim>\<open>Started\<close> and \<^verbatim>\<open>Done\<close>, as written.\<close>

definition QueryNode_Current :: "QueryNode \<Rightarrow> error + uint32" where
  "QueryNode_Current q =
     (if cursor q < 0 \<or> queryBufferSize \<le> cursor q then Inl IndexOutOfRange
      else Inr (buffer q ! nat (cursor q)))"

definition Started :: "QueryNode \<Rightarrow> bool" where
  "Started q = (node_length q = beforeStartedLength)"

definition Done :: "QueryNode \<Rightarrow> bool" where
  "Done q = (node_length q = doneLength)"

text \<open>
  The loops of the AND and OR operators run until a child stream ends. They are defined
  with fuel: every loop iteration and every level of operator nesting takes one unit, and
  \<open>None\<close> means that the fuel ran out before the call returned. A call that returns gives
  \<open>Some (Inr r)\<close>, a call that panics \<open>Some (Inl e)\<close>.
\<close>

type_synonym 'a result = "(error + 'a) option"

definition andThen :: "'a result \<Rightarrow> ('a \<Rightarrow> 'b result) \<Rightarrow> 'b result" where
  "andThen r f = (case r of None \<Rightarrow> None | Some (Inl e) \<Rightarrow> Some (Inl e) | Some (Inr x) \<Rightarrow> f x)"

definition current :: "QueryNode \<Rightarrow> uint32 result" where
  "current q = Some (QueryNode_Current q)"

text \<open>
  \<^verbatim>\<open>q.op.NextChunk\<close> is a call through the interface \<^verbatim>\<open>QueryOperator\<close>. \<^verbatim>\<open>QueryNode.MoveNext\<close>
  takes the method as the argument \<open>nc\<close>; its result is the operator's buffer, the count
  and the operator after the call. The node keeps its own \<^verbatim>\<open>buffer\<close>: the array was
  passed by value.
\<close>

type_synonym nextChunk = "QueryOperator \<Rightarrow> uint32 list \<Rightarrow> (uint32 list \<times> int \<times> QueryOperator) result"

definition QueryNode_MoveNext :: "nextChunk \<Rightarrow> QueryNode \<Rightarrow> (bool \<times> QueryNode) result" where
  "QueryNode_MoveNext nc q =
     (if \<not> Done q then
        (let c = cursor q + 1 in
         if node_length q \<le> c then
           andThen (nc (op q) (buffer q)) (\<lambda>(buf', len, opr').
             (let len' = (if len = 0 then doneLength else len);
                  q' = QueryNode (buffer q) len' 0 opr'
              in Some (Inr (\<not> Done q', q'))))
         else (let q' = QueryNode (buffer q) (node_length q) c (op q)
               in Some (Inr (\<not> Done q', q'))))
      else Some (Inr (\<not> Done q, q)))"

text \<open>
  \<^verbatim>\<open>AndOperator.nextMatch\<close>: its two inner loops (\<open>skipLeft\<close>, \<open>skipRight\<close>; the value is
  \<open>False\<close> where the source returns \<^verbatim>\<open>(0, false)\<close> from inside the loop), its outer loop
  (\<open>matchLoop\<close>) and the method; \<open>None\<close> in the value stands for \<^verbatim>\<open>(0, false)\<close>. \<open>mv\<close> is
  \<^verbatim>\<open>MoveNext\<close> of the children.
\<close>

type_synonym moveNext = "QueryNode \<Rightarrow> (bool \<times> QueryNode) result"

fun skipLeft :: "moveNext \<Rightarrow> nat \<Rightarrow> QueryNode \<Rightarrow> QueryNode \<Rightarrow> (bool \<times> QueryNode) result" where
  "skipLeft mv 0 l r = None"
| "skipLeft mv (Suc n) l r =
     andThen (current l) (\<lambda>x. andThen (current r) (\<lambda>y.
       if y < x then
         andThen (mv l) (\<lambda>(b, l1).
           if \<not> b then Some (Inr (False, l1)) else skipLeft mv n l1 r)
       else Some (Inr (True, l))))"

fun skipRight :: "moveNext \<Rightarrow> nat \<Rightarrow> QueryNode \<Rightarrow> QueryNode \<Rightarrow> (bool \<times> QueryNode) result" where
  "skipRight mv 0 l r = None"
| "skipRight mv (Suc n) l r =
     andThen (current r) (\<lambda>y. andThen (current l) (\<lambda>x.
       if x < y then
         andThen (mv r) (\<lambda>(b, r1).
           if \<not> b then Some (Inr (False, r1)) else skipRight mv n l r1)
       else Some (Inr (True, r))))"

fun matchLoop :: "moveNext \<Rightarrow> nat \<Rightarrow> QueryNode \<Rightarrow> QueryNode \<Rightarrow>
    (uint32 option \<times> QueryNode \<times> QueryNode) result" where
  "matchLoop mv 0 l r = None"
| "matchLoop mv (Suc n) l r =
     andThen (current l) (\<lambda>x. andThen (current r) (\<lambda>y.
       if x \<noteq> y then
         andThen (skipLeft mv n l r) (\<lambda>(ok, l1).
           if \<not> ok then Some (Inr (None, l1, r))
           else andThen (skipRight mv n l1 r) (\<lambda>(ok', r1).
             if \<not> ok' then Some (Inr (None, l1, r1))
             else matchLoop mv n l1 r1))
       else Some (Inr (Some x, l, r))))"

definition nextMatch :: "moveNext \<Rightarrow> nat \<Rightarrow> QueryNode \<Rightarrow> QueryNode \<Rightarrow>
    (uint32 option \<times> QueryNode \<times> QueryNode) result" where
  "nextMatch mv n l r =
     andThen (mv l) (\<lambda>(bl, l1).
       if \<not> bl then Some (Inr (None, l1, r))
       else andThen (mv r) (\<lambda>(br, r1).
         if \<not> br then Some (Inr (None, l1, r1))
         else matchLoop mv n l1 r1))"

text \<open>The loop of \<^verbatim>\<open>AndOperator.NextChunk\<close>, from \<^verbatim>\<open>i\<close>.\<close>

fun andLoop :: "moveNext \<Rightarrow> nat \<Rightarrow> QueryNode \<Rightarrow> QueryNode \<Rightarrow> uint32 list \<Rightarrow> int \<Rightarrow>
    (uint32 list \<times> int \<times> QueryNode \<times> QueryNode) result" where
  "andLoop mv 0 l r buf i = None"
| "andLoop mv (Suc n) l r buf i =
     (if i < queryBufferSize then
        andThen (nextMatch mv n l r) (\<lambda>(v, l1, r1).
          (case v of
             Some x \<Rightarrow>
               if i < 0 then Some (Inl IndexOutOfRange)
               else andLoop mv n l1 r1 (buf[nat i := x]) (i + 1)
           | None \<Rightarrow> Some (Inr (buf, i, l1, r1))))
      else Some (Inr (buf, i, l, r)))"

text \<open>
  The three loops of \<^verbatim>\<open>OrOperator.NextChunk\<close>: \<open>orBoth\<close> while both children are live,
  \<open>orDrain\<close> for the left child and then for the right one.
\<close>

fun orBoth :: "moveNext \<Rightarrow> nat \<Rightarrow> QueryNode \<Rightarrow> QueryNode \<Rightarrow> uint32 list \<Rightarrow> int \<Rightarrow>
    (uint32 list \<times> int \<times> QueryNode \<times> QueryNode) result" where
  "orBoth mv 0 l r buf i = None"
| "orBoth mv (Suc n) l r buf i =
     (if i < queryBufferSize \<and> \<not> Done l \<and> \<not> Done r then
        andThen (current l) (\<lambda>x. andThen (current r) (\<lambda>y.
          if i < 0 then Some (Inl IndexOutOfRange)
          else if y < x then
            andThen (mv l) (\<lambda>(b, l1). orBoth mv n l1 r (buf[nat i := x]) (i + 1))
          else if x < y then
            andThen (mv r) (\<lambda>(b, r1). orBoth mv n l r1 (buf[nat i := y]) (i + 1))
          else
            andThen (mv l) (\<lambda>(b, l1).
            andThen (mv r) (\<lambda>(b', r1). orBoth mv n l1 r1 (buf[nat i := x]) (i + 1)))))
      else Some (Inr (buf, i, l, r)))"

fun orDrain :: "moveNext \<Rightarrow> nat \<Rightarrow> QueryNode \<Rightarrow> uint32 list \<Rightarrow> int \<Rightarrow>
    (uint32 list \<times> int \<times> QueryNode) result" where
  "orDrain mv 0 q buf i = None"
| "orDrain mv (Suc n) q buf i =
     (if i < queryBufferSize \<and> \<not> Done q then
        andThen (current q) (\<lambda>x.
          if i < 0 then Some (Inl IndexOutOfRange)
          else andThen (mv q) (\<lambda>(b, q1). orDrain mv n q1 (buf[nat i := x]) (i + 1)))
      else Some (Inr (buf, i, q)))"

text \<open>
  \<^verbatim>\<open>NextChunk\<close> of the three operators. \<^verbatim>\<open>OrOperator.NextChunk\<close> begins with
  \<^verbatim>\<open>if !op.Left.Started() { op.Left.MoveNext(); op.Right.MoveNext() }\<close>, where \<^verbatim>\<open>Started\<close> is
  the test \<^verbatim>\<open>length == beforeStartedLength\<close>.
\<close>

primrec NextChunk :: "nat \<Rightarrow> nextChunk" where
  "NextChunk 0 = (\<lambda>opr buf. None)"
| "NextChunk (Suc n) = (\<lambda>opr buf.
     (case opr of
        TerminalOperator cur cc \<Rightarrow>
          (case TerminalOperator_NextChunk cur cc buf of
             Inl e \<Rightarrow> Some (Inl e)
           | Inr (buf', i, cur', cc') \<Rightarrow> Some (Inr (buf', i, TerminalOperator cur' cc')))
      | AndOperator l r \<Rightarrow>
          andThen (andLoop (QueryNode_MoveNext (NextChunk n)) n l r buf 0) (\<lambda>(buf', i, l', r').
            Some (Inr (buf', i, AndOperator l' r')))
      | OrOperator l r \<Rightarrow>
          andThen (if \<not> Started l
                   then andThen (QueryNode_MoveNext (NextChunk n) l) (\<lambda>(b, l1).
                        andThen (QueryNode_MoveNext (NextChunk n) r) (\<lambda>(b', r1).
                          Some (Inr (l1, r1))))
                   else Some (Inr (l, r))) (\<lambda>(l1, r1).
          andThen (orBoth (QueryNode_MoveNext (NextChunk n)) n l1 r1 buf 0) (\<lambda>(buf1, i1, l2, r2).
          andThen (orDrain (QueryNode_MoveNext (NextChunk n)) n l2 buf1 i1) (\<lambda>(buf2, i2, l3).
          andThen (orDrain (QueryNode_MoveNext (NextChunk n)) n r2 buf2 i2) (\<lambda>(buf3, i3, r3).
            Some (Inr (buf3, i3, OrOperator l3 r3))))))))"

text \<open>\<^verbatim>\<open>MoveNext\<close> of a node whose operator tree is run with fuel \<open>n\<close>.\<close>

definition MoveNext :: "nat \<Rightarrow> QueryNode \<Rightarrow> (bool \<times> QueryNode) result" where
  "MoveNext n q = QueryNode_MoveNext (NextChunk n) q"

subsection \<open>query.go: the parser\<close>

text \<open>\<^verbatim>\<open>opStack\<close> is a slice; the top of the stack is its last element.\<close>

type_synonym opStack = "QueryOperator list"

definition Push :: "opStack \<Rightarrow> QueryOperator \<Rightarrow> opStack" where
  "Push s opr = s @ [opr]"

definition Pop :: "opStack \<Rightarrow> error + (QueryOperator \<times> opStack)" where
  "Pop s = (if length s < 1 then Inl StackUnderflow else Inr (last s, butlast s))"

text \<open>
  The inner loop of the literal case,
  \<^verbatim>\<open>for i < len(query) && query[i] != '"' { i++ }\<close>; it returns the final \<^verbatim>\<open>i\<close>.
\<close>

function scanLiteral :: "string \<Rightarrow> nat \<Rightarrow> nat" where
  "scanLiteral query i =
     (if i < length query \<and> query ! i \<noteq> CHR 0x22 then scanLiteral query (i + 1) else i)"
  by pat_completeness auto
termination
  by (relation "measure (\<lambda>(query, i). length query - i)") auto

declare scanLiteral.simps [simp del]

text \<open>\<^verbatim>\<open>query[start:i]\<close>, used only where \<open>start < i\<close> and \<open>i < length query\<close>.\<close>

definition slice :: "string \<Rightarrow> nat \<Rightarrow> nat \<Rightarrow> string" where
  "slice query start i = take (i - start) (drop start query)"

lemma scanLiteral_ge: "i \<le> scanLiteral query i"
proof (induction query i rule: scanLiteral.induct)
  case (1 query i)
  show ?case
  proof (cases "i < length query \<and> query ! i \<noteq> CHR 0x22")
    case True
    then have "scanLiteral query i = scanLiteral query (i + 1)"
      by (subst scanLiteral.simps) simp
    with 1 True show ?thesis by simp
  next
    case False
    then have "scanLiteral query i = i"
      by (subst scanLiteral.simps) auto
    then show ?thesis by simp
  qed
qed

text \<open>
  The main loop of \<^verbatim>\<open>ParseQuery\<close>, from offset \<open>i\<close> with the operand stack \<open>stack\<close>.
  In \<^verbatim>\<open>NewAndOperator(stack.Pop(), stack.Pop())\<close> Go evaluates the arguments left to right:
  the first pop (the top of the stack) becomes the left child. The literal case leaves
  \<open>i\<close> on the closing quote and the loop's \<^verbatim>\<open>i++\<close> steps over it. A terminal is built as
  \<^verbatim>\<open>&TerminalOperator{Current: chunk}\<close>; its \<^verbatim>\<open>ChunkCursor\<close> has the zero value.
\<close>

function ParseQuery_loop :: "PostIndex \<Rightarrow> string \<Rightarrow> nat \<Rightarrow> opStack \<Rightarrow> error + opStack" where
  "ParseQuery_loop index query i stack =
     (if i < length query then
        if query ! i = CHR ''&'' then
          if length stack < 2 then Inl (ParseError (int i) ''Need two operands for &'')
          else (case Pop stack of
                  Inl e \<Rightarrow> Inl e
                | Inr (a, s1) \<Rightarrow>
                    (case Pop s1 of
                       Inl e \<Rightarrow> Inl e
                     | Inr (b, s2) \<Rightarrow>
                         ParseQuery_loop index query (i + 1) (Push s2 (NewAndOperator a b))))
        else if query ! i = CHR ''|'' then
          if length stack < 2 then Inl (ParseError (int i) ''Need two operands for |'')
          else (case Pop stack of
                  Inl e \<Rightarrow> Inl e
                | Inr (a, s1) \<Rightarrow>
                    (case Pop s1 of
                       Inl e \<Rightarrow> Inl e
                     | Inr (b, s2) \<Rightarrow>
                         ParseQuery_loop index query (i + 1) (Push s2 (NewOrOperator a b))))
        else if query ! i = CHR 0x22 then
          (let start = i + 1;
               j = scanLiteral query (start + 1)
           in if length query \<le> j
              then Inl (ParseError (int start - 1) ''Unterminated string constant'')
              else ParseQuery_loop index query (j + 1)
                     (Push stack
                        (TerminalOperator (findSetChunkForQuery index (slice query start j)) 0)))
        else Inl (ParseError (int i) ''Unexpected character'')
      else Inr stack)"
  by pat_completeness auto
termination
proof (relation "measure (\<lambda>(index, query, i, stack). length query - i)")
  show "wf (measure (\<lambda>(index, query, i, stack). length query - i))"
    by simp
next
  fix index :: PostIndex and query :: string and i :: nat and stack :: opStack
    and x2 :: "QueryOperator \<times> opStack" and a s1 and x2a :: "QueryOperator \<times> opStack" and b s2
  assume "i < length query"
  then show "((index, query, i + 1, Push s2 (NewAndOperator a b)), index, query, i, stack)
          \<in> measure (\<lambda>(index, query, i, stack). length query - i)"
    by simp
next
  fix index :: PostIndex and query :: string and i :: nat and stack :: opStack
    and x2 :: "QueryOperator \<times> opStack" and a s1 and x2a :: "QueryOperator \<times> opStack" and b s2
  assume "i < length query"
  then show "((index, query, i + 1, Push s2 (NewOrOperator a b)), index, query, i, stack)
          \<in> measure (\<lambda>(index, query, i, stack). length query - i)"
    by simp
next
  fix index :: PostIndex and query :: string and i :: nat and stack :: opStack and x xa
  assume "i < length query" and "x = i + 1" and "xa = scanLiteral query (x + 1)"
    and "\<not> length query \<le> xa"
  moreover have "x + 1 \<le> scanLiteral query (x + 1)"
    by (rule scanLiteral_ge)
  ultimately have "i < xa + 1" and "xa < length query"
    by linarith+
  then show "((index, query, xa + 1,
             Push stack (TerminalOperator (findSetChunkForQuery index (slice query x xa)) 0)),
            index, query, i, stack)
          \<in> measure (\<lambda>(index, query, i, stack). length query - i)"
    by simp
qed

declare ParseQuery_loop.simps [simp del]

definition ParseQuery :: "PostIndex \<Rightarrow> string \<Rightarrow> error + QueryNode" where
  "ParseQuery index query =
     (case ParseQuery_loop index query 0 [] of
        Inl e \<Rightarrow> Inl e
      | Inr stack \<Rightarrow>
          if length stack \<noteq> 1
          then Inl (ParseError (int (length query)) ''Unterminated query'')
          else (case Pop stack of
                  Inl e \<Rightarrow> Inl e
                | Inr (opr, s) \<Rightarrow> Inr (newQueryNode opr)))"

subsection \<open>The top-N driver\<close>

text \<open>
  Modelled from the spec: the loop of \<^verbatim>\<open>PostIndex.QueryPosts\<close>, which the tests call and
  which is not among the sources. Section 4.D, step 2: "Repeatedly pull chunks from the root
  operator until \<open>limit\<close> local ids are collected or the root signals end-of-stream." The
  root is the \<^verbatim>\<open>*QueryNode\<close> that \<^verbatim>\<open>ParseQuery\<close> returns, and its ids are read the way a
  node's ids are read in \<^verbatim>\<open>query.go\<close>, with \<^verbatim>\<open>MoveNext\<close> and \<^verbatim>\<open>Current\<close>.
\<close>

fun drain :: "nat \<Rightarrow> nat \<Rightarrow> QueryNode \<Rightarrow> uint32 list \<Rightarrow> uint32 list result" where
  "drain 0 limit root acc = None"
| "drain (Suc n) limit root acc =
     (if limit \<le> length acc then Some (Inr acc)
      else andThen (MoveNext n root) (\<lambda>(b, root').
             if \<not> b then Some (Inr acc)
             else andThen (current root') (\<lambda>v. drain n limit root' (acc @ [v]))))"

text \<open>
  Modelled from the spec: the translation step of \<^verbatim>\<open>QueryPosts\<close>, absent from the sources.
  Section 4.D, step 3: "Translate each local id to a global id via \<open>id_map\<close>; skip any local
  id without a mapping."
\<close>

definition translate :: "PostIndex \<Rightarrow> uint32 list \<Rightarrow> uint64 list" where
  "translate index ids =
     List.map_filter (\<lambda>localId. case idMap index of None \<Rightarrow> None | Some m \<Rightarrow> m localId) ids"

text \<open>
  Modelled from the spec: \<^verbatim>\<open>PostIndex.QueryPosts(expression, limit)\<close>, absent from the
  sources. Section 4.D: parse the expression and return a parse error as it is; collect
  local ids from the root; translate them; return the global ids in the order collected.
\<close>

definition QueryPosts :: "nat \<Rightarrow> PostIndex \<Rightarrow> string \<Rightarrow> nat \<Rightarrow> uint64 list result" where
  "QueryPosts fuel index expression limit =
     (case ParseQuery index expression of
        Inl e \<Rightarrow> Some (Inl e)
      | Inr root \<Rightarrow>
          andThen (drain fuel limit root []) (\<lambda>ids. Some (Inr (translate index ids))))"

text \<open>A query made after a sequence of \<^verbatim>\<open>AddPost\<close> calls on a fresh index.\<close>

definition queryAfter :: "nat \<Rightarrow> (uint64 \<times> string list) list \<Rightarrow> string \<Rightarrow> nat \<Rightarrow> uint64 list result" where
  "queryAfter fuel calls expression limit =
     (case AddPosts calls emptyIndex of
        Inl e \<Rightarrow> Some (Inl e)
      | Inr index \<Rightarrow> QueryPosts fuel index expression limit)"

subsection \<open>Runs of the ingestion path and the invariant of a posting set\<close>

text \<open>The map of posting sets of an index, empty when the Go map is nil.\<close>

definition setsOf :: "PostIndex \<Rightarrow> (string \<rightharpoonup> PostSet)" where
  "setsOf index = (case sets index of None \<Rightarrow> Map.empty | Some m \<Rightarrow> m)"

text \<open>
  The map after \<^verbatim>\<open>findOrCreateSets\<close>: a new posting set for every word that had none.
\<close>

definition extend :: "(string \<rightharpoonup> PostSet) \<Rightarrow> string list \<Rightarrow> (string \<rightharpoonup> PostSet)" where
  "extend m ws = (\<lambda>w. if m w = None \<and> w \<in> set ws then Some NewPostSet else m w)"

text \<open>
  The head chunk of a posting set is well formed when its array has \<^verbatim>\<open>ChunkSize\<close> slots
  and its length is between 0 and \<^verbatim>\<open>ChunkSize\<close>. A posting set is in order up to \<open>k\<close>
  when its head chunk is well formed, its ids are strictly ascending and none exceeds
  \<open>k\<close>; an index is in order after \<open>k\<close> calls when the counter is \<open>k\<close> and every posting
  set is in order up to \<open>k\<close>.
\<close>

definition chunkOK :: "PostChunk \<Rightarrow> bool" where
  "chunkOK c = (length (IDs c) = 4096 \<and> 0 \<le> sint (Length c) \<and> sint (Length c) \<le> 4096)"

definition setOK :: "nat \<Rightarrow> PostSet \<Rightarrow> bool" where
  "setOK k s = (chunkOK (firstChunk s) \<and> sorted_wrt (<) (posting (firstChunk s)) \<and>
                (\<forall>x \<in> set (posting (firstChunk s)). unat x \<le> k))"

definition indexOK :: "nat \<Rightarrow> PostIndex \<Rightarrow> bool" where
  "indexOK k index = (nextLocalId index = of_nat k \<and> (\<forall>w s. setsOf index w = Some s \<longrightarrow> setOK k s))"

text \<open>
  The posting list of a term after a sequence of \<^verbatim>\<open>AddPost\<close> calls on a fresh index that
  have all returned.
\<close>

definition postingAfter :: "(uint64 \<times> string list) list \<Rightarrow> string \<Rightarrow> uint32 list option" where
  "postingAfter calls w =
     (case AddPosts calls emptyIndex of Inl e \<Rightarrow> None | Inr index \<Rightarrow> Some (postingList index w))"


text \<open>
  The chunks of a term's posting set after 4097 posts: the first chunk, full, with the ids
  1 to 4096, and the head chunk with the id 4097.
\<close>

definition older :: PostChunk where
  "older = PostChunk (map of_nat [1..<4097]) 4096 None"

definition chunk4097 :: PostChunk where
  "chunk4097 = PostChunk (zeroIDs[0 := 4097]) 1 (Some older)"

section \<open>Properties\<close>

subsection \<open>The ingestion path\<close>

lemma deref_setsOf:
  "deref index (Some w) = (case setsOf index w of None \<Rightarrow> Inl NilDereference | Some pset \<Rightarrow> Inr pset)"
  by (simp add: deref_def setsOf_def split: option.splits)

lemma setsOf_assign [simp]: "setsOf (assign index w pset) = (setsOf index)(w \<mapsto> pset)"
  by (simp add: assign_def setsOf_def)

lemma nextLocalId_assign [simp]: "nextLocalId (assign index w pset) = nextLocalId index"
  by (simp add: assign_def)

lemma idMap_assign [simp]: "idMap (assign index w pset) = idMap index"
  by (simp add: assign_def)

lemma createPass_spec:
  "list_all2 (\<lambda>w p. p = None \<or> (p = Some w \<and> m w \<noteq> None)) ws found \<Longrightarrow>
   createPass ws found m = (map Some ws, extend m ws)"
proof (induction ws arbitrary: found m)
  case Nil
  then show ?case by (simp add: extend_def)
next
  case (Cons w ws)
  from Cons.prems obtain p ps where found: "found = p # ps"
    and hd: "p = None \<or> (p = Some w \<and> m w \<noteq> None)"
    and tl: "list_all2 (\<lambda>w p. p = None \<or> (p = Some w \<and> m w \<noteq> None)) ws ps"
    by (auto simp: list_all2_Cons1)
  show ?case
  proof (cases "m w")
    case (Some pset)
    have "extend m ws = extend m (w # ws)"
      using Some by (auto simp: extend_def fun_eq_iff)
    with Cons.IH [OF tl] hd Some found show ?thesis
      by auto
  next
    case None
    with hd have p: "p = None" by simp
    have "list_all2 (\<lambda>w' p. p = None \<or> (p = Some w' \<and> (m(w \<mapsto> NewPostSet)) w' \<noteq> None)) ws ps"
      using tl by (rule list_all2_mono) auto
    from Cons.IH [OF this]
    have "createPass ws ps (m(w \<mapsto> NewPostSet)) = (map Some ws, extend (m(w \<mapsto> NewPostSet)) ws)" .
    moreover have "extend (m(w \<mapsto> NewPostSet)) ws = extend m (w # ws)"
      using None by (auto simp: extend_def fun_eq_iff)
    ultimately show ?thesis using p None found by simp
  qed
qed

lemma findOrCreateSets_spec:
  "findOrCreateSets ws index = (map Some ws, index\<lparr>sets := Some (extend (setsOf index) ws)\<rparr>)"
proof (cases "sets index")
  case None
  have "list_all2 (\<lambda>w p. p = None \<or> (p = Some w \<and> Map.empty w \<noteq> (None :: PostSet option))) ws (replicate (length ws) None)"
    by (simp add: list_all2_conv_all_nth)
  from createPass_spec [OF this] None show ?thesis
    by (simp add: findOrCreateSets_def lookupPass_def setsOf_def)
next
  case (Some m)
  let ?found = "map (\<lambda>w. case m w of None \<Rightarrow> None | Some pset \<Rightarrow> Some w) ws"
  have la: "list_all2 (\<lambda>w p. p = None \<or> (p = Some w \<and> m w \<noteq> None)) ws ?found"
    by (auto simp: list_all2_conv_all_nth split: option.splits)
  show ?thesis
  proof (cases "list_ex (\<lambda>w. m w = None) ws")
    case True
    with createPass_spec [OF la] Some show ?thesis
      by (simp add: findOrCreateSets_def lookupPass_def setsOf_def)
  next
    case False
    then have all: "\<forall>w \<in> set ws. m w \<noteq> None" by (simp add: list_ex_iff)
    then have "?found = map Some ws" by (auto split: option.splits)
    moreover from all have "extend m ws = m" by (auto simp: extend_def fun_eq_iff)
    ultimately show ?thesis using False Some
      by (simp add: findOrCreateSets_def lookupPass_def setsOf_def)
  qed
qed


lemma lockAll_spec:
  "lockAll (map Some ws) index = Inr index2 \<Longrightarrow>
   distinct ws \<and> nextLocalId index2 = nextLocalId index \<and> idMap index2 = idMap index \<and>
   (\<forall>w. setsOf index2 w =
      (if w \<in> set ws then map_option (\<lambda>s. s\<lparr>SyncRoot := True\<rparr>) (setsOf index w)
       else setsOf index w)) \<and>
   (\<forall>w \<in> set ws. \<exists>s. setsOf index w = Some s \<and> \<not> SyncRoot s)"
proof (induction ws arbitrary: index)
  case Nil
  then show ?case by simp
next
  case (Cons w ws)
  from Cons.prems obtain s where s: "setsOf index w = Some s" and unl: "\<not> SyncRoot s"
    and rest: "lockAll (map Some ws) (assign index w (s\<lparr>SyncRoot := True\<rparr>)) = Inr index2"
    by (auto simp: deref_setsOf split: option.splits if_splits)
  note IH = Cons.IH [OF rest]
  have notin: "w \<notin> set ws"
  proof
    assume "w \<in> set ws"
    with IH obtain s' where "setsOf (assign index w (s\<lparr>SyncRoot := True\<rparr>)) w = Some s'" and "\<not> SyncRoot s'"
      by blast
    then show False by auto
  qed
  have "\<forall>w' \<in> set ws. \<exists>s. setsOf index w' = Some s \<and> \<not> SyncRoot s"
  proof
    fix w' assume w': "w' \<in> set ws"
    with notin have "w' \<noteq> w" by auto
    with IH w' show "\<exists>s. setsOf index w' = Some s \<and> \<not> SyncRoot s" by auto
  qed
  with IH notin s unl show ?case by auto
qed

lemma appendAll_spec:
  "distinct ws \<Longrightarrow> appendAll (map Some ws) localId index = Inr index5 \<Longrightarrow>
   nextLocalId index5 = nextLocalId index \<and> idMap index5 = idMap index \<and>
   (\<forall>w. if w \<in> set ws
        then (\<exists>s s'. setsOf index w = Some s \<and> PostSet_AddPost localId s = Inr s' \<and>
                setsOf index5 w = Some s')
        else setsOf index5 w = setsOf index w)"
proof (induction ws arbitrary: index)
  case Nil
  then show ?case by simp
next
  case (Cons w ws)
  from Cons.prems(2) obtain s s' where s: "setsOf index w = Some s"
    and app: "PostSet_AddPost localId s = Inr s'"
    and rest: "appendAll (map Some ws) localId (assign index w s') = Inr index5"
    by (auto simp: deref_setsOf split: option.splits sum.splits)
  from Cons.prems(1) have d: "distinct ws" and notin: "w \<notin> set ws" by simp_all
  note IH = Cons.IH [OF d rest]
  show ?case
  proof (intro conjI allI)
    fix w'
    show "if w' \<in> set (w # ws)
        then (\<exists>s s'. setsOf index w' = Some s \<and> PostSet_AddPost localId s = Inr s' \<and>
                setsOf index5 w' = Some s')
        else setsOf index5 w' = setsOf index w'"
    proof (cases "w' = w")
      case True
      with IH notin s app show ?thesis by auto
    next
      case False
      with IH show ?thesis by (auto split: if_splits)
    qed
  qed (use IH in simp_all)
qed

lemma unlockAll_spec:
  "unlockAll (map Some ws) index = Inr index6 \<Longrightarrow>
   nextLocalId index6 = nextLocalId index \<and> idMap index6 = idMap index \<and>
   (\<forall>w. setsOf index6 w =
      (if w \<in> set ws then map_option (\<lambda>s. s\<lparr>SyncRoot := False\<rparr>) (setsOf index w)
       else setsOf index w))"
proof (induction ws arbitrary: index)
  case Nil
  then show ?case by simp
next
  case (Cons w ws)
  from Cons.prems obtain s where s: "setsOf index w = Some s"
    and rest: "unlockAll (map Some ws) (assign index w (s\<lparr>SyncRoot := False\<rparr>)) = Inr index6"
    by (auto simp: deref_setsOf split: option.splits)
  from Cons.IH [OF rest] s show ?case by auto
qed

lemma setsOf_update [simp]: "setsOf (index\<lparr>sets := Some m\<rparr>) = m"
  by (simp add: setsOf_def)

lemma setsOf_other [simp]:
  "setsOf (index\<lparr>nextLocalId := n\<rparr>) = setsOf index"
  "setsOf (addIdMapping g l index) = setsOf index"
  by (simp_all add: setsOf_def addIdMapping_def)

lemma PostIndex_AddPost_spec:
  assumes "PostIndex_AddPost g words index = Inr index'"
  shows "distinct words \<and> nextLocalId index' = nextLocalId index + 1 \<and>
     idMap index' = Some ((case idMap index of None \<Rightarrow> Map.empty | Some m \<Rightarrow> m)
                            (nextLocalId index + 1 \<mapsto> g)) \<and>
     (\<forall>w. if w \<in> set words
          then (\<exists>s s'. extend (setsOf index) words w = Some s \<and> \<not> SyncRoot s \<and>
                  PostSet_AddPost (nextLocalId index + 1) (s\<lparr>SyncRoot := True\<rparr>) = Inr s' \<and>
                  setsOf index' w = Some (s'\<lparr>SyncRoot := False\<rparr>))
          else setsOf index' w = setsOf index w)"
proof -
  let ?ws = "sort words"
  let ?i1 = "index\<lparr>sets := Some (extend (setsOf index) ?ws)\<rparr>"
  let ?lid = "nextLocalId index + 1"
  have ext: "extend (setsOf index) ?ws = extend (setsOf index) words"
    by (simp add: extend_def)
  from assms obtain i2 where l: "lockAll (map Some ?ws) ?i1 = Inr i2"
    by (auto simp: PostIndex_AddPost_def findOrCreateSets_spec Let_def split: sum.splits)
  note L = lockAll_spec [OF l]
  let ?i4 = "addIdMapping g (nextLocalId i2 + 1) (i2\<lparr>nextLocalId := nextLocalId i2 + 1\<rparr>)"
  from assms l obtain i5 where a: "appendAll (map Some ?ws) (nextLocalId i2 + 1) ?i4 = Inr i5"
    and u: "unlockAll (map Some (rev ?ws)) i5 = Inr index'"
    by (auto simp: PostIndex_AddPost_def findOrCreateSets_spec Let_def rev_map split: sum.splits)
  from L have d: "distinct ?ws" by simp
  note A = appendAll_spec [OF d a]
  note U = unlockAll_spec [OF u]
  from L have n2: "nextLocalId i2 = nextLocalId index" and m2: "idMap i2 = idMap index" by simp_all
  have "distinct words" using d by simp
  moreover have "nextLocalId index' = ?lid"
    using U A n2 by (simp add: addIdMapping_def)
  moreover have "idMap index' = Some ((case idMap index of None \<Rightarrow> Map.empty | Some m \<Rightarrow> m)(?lid \<mapsto> g))"
    using U A n2 m2 by (simp add: addIdMapping_def)
  moreover have "\<forall>w. if w \<in> set words
          then (\<exists>s s'. extend (setsOf index) words w = Some s \<and> \<not> SyncRoot s \<and>
                  PostSet_AddPost ?lid (s\<lparr>SyncRoot := True\<rparr>) = Inr s' \<and>
                  setsOf index' w = Some (s'\<lparr>SyncRoot := False\<rparr>))
          else setsOf index' w = setsOf index w"
  proof
    fix w
    show "if w \<in> set words
          then (\<exists>s s'. extend (setsOf index) words w = Some s \<and> \<not> SyncRoot s \<and>
                  PostSet_AddPost ?lid (s\<lparr>SyncRoot := True\<rparr>) = Inr s' \<and>
                  setsOf index' w = Some (s'\<lparr>SyncRoot := False\<rparr>))
          else setsOf index' w = setsOf index w"
    proof (cases "w \<in> set words")
      case True
      then have inws: "w \<in> set ?ws" by simp
      with L obtain s where s: "setsOf ?i1 w = Some s" and unl: "\<not> SyncRoot s" by blast
      from L inws s have s2: "setsOf i2 w = Some (s\<lparr>SyncRoot := True\<rparr>)" by simp
      from A inws obtain t t' where t: "setsOf ?i4 w = Some t"
        and app: "PostSet_AddPost (nextLocalId i2 + 1) t = Inr t'" and t5: "setsOf i5 w = Some t'"
        by (metis (no_types, lifting))
      from t s2 have "t = s\<lparr>SyncRoot := True\<rparr>" by simp
      moreover from U inws t5 have "setsOf index' w = Some (t'\<lparr>SyncRoot := False\<rparr>)" by simp
      ultimately show ?thesis using True s unl app n2 ext by auto
    next
      case False
      then have notin: "w \<notin> set ?ws" by simp
      with U A L have "setsOf index' w = setsOf ?i1 w" by simp
      with False show ?thesis by (simp add: extend_def)
    qed
  qed
  ultimately show ?thesis by blast
qed


lemma sint_succ:
  assumes "0 \<le> sint (x :: int32)" and "sint x < 4096"
  shows "sint (x + 1) = sint x + 1"
proof -
  have "x + 1 = word_of_int (sint x + 1)" by simp
  then have "sint (x + 1) = signed_take_bit (LENGTH(32) - 1) (sint x + 1)"
    by (simp only: sint_sbintrunc')
  also have "\<dots> = sint x + 1"
    using assms by (simp add: signed_take_bit_int_eq_self)
  finally show ?thesis .
qed

lemma sint_4096: "sint (x :: int32) = 4096 \<Longrightarrow> x = 4096"
  by (rule signed_word_eqI) simp

lemma unat_of_nat32: "k < 2 ^ 32 \<Longrightarrow> unat (of_nat k :: uint32) = k"
  by (simp add: unat_of_nat)

lemma length_zeroIDs [simp]: "length zeroIDs = 4096"
  by (simp add: zeroIDs_def)

lemma PostSet_AddPost_posting:
  assumes ok: "chunkOK (firstChunk s)" and app: "PostSet_AddPost v s = Inr s'"
  shows "chunkOK (firstChunk s') \<and> posting (firstChunk s') = posting (firstChunk s) @ [v] \<and>
         SyncRoot s' = SyncRoot s"
proof (cases "firstChunk s")
  case (PostChunk ids len nxt)
  with ok have len: "length ids = 4096" "0 \<le> sint len" "sint len \<le> 4096"
    by (simp_all add: chunkOK_def)
  show ?thesis
  proof (cases "len = ChunkSize")
    case True
    with app PostChunk have "s' = s\<lparr>firstChunk := PostChunk (zeroIDs[0 := v]) 1 (Some (PostChunk ids len nxt))\<rparr>"
      by (simp add: PostSet_AddPost_def FirstChunk_def)
    moreover have "take (Suc 0) (zeroIDs[0 := v]) = [v]"
      by (simp add: zeroIDs_def take_Suc_conv_app_nth)
    ultimately show ?thesis using PostChunk True
      by (simp add: chunkOK_def ChunkSize_def)
  next
    case False
    have "sint len \<noteq> 4096"
      using sint_4096 [of len] False by (auto simp: ChunkSize_def)
    with len have lt: "sint len < 4096" by simp
    with app PostChunk False len
    have s': "s' = s\<lparr>firstChunk := PostChunk (ids[nat (sint len) := v]) (len + 1) nxt\<rparr>"
      by (simp add: PostSet_AddPost_def FirstChunk_def ChunkSize_def)
    have sl: "sint (len + 1) = sint len + 1"
      using len lt by (simp add: sint_succ)
    have "take (nat (sint len + 1)) (ids[nat (sint len) := v]) = take (nat (sint len)) ids @ [v]"
    proof -
      have "nat (sint len + 1) = Suc (nat (sint len))" using len by simp
      moreover have "nat (sint len) < length ids" using len lt by simp
      ultimately show ?thesis by (simp add: take_Suc_conv_app_nth)
    qed
    with s' sl PostChunk len lt show ?thesis
      by (simp add: chunkOK_def)
  qed
qed


lemma setOK_New: "setOK k NewPostSet"
  by (simp add: setOK_def chunkOK_def NewPostSet_def)

lemma setOK_mono: "setOK k s \<Longrightarrow> k \<le> k' \<Longrightarrow> setOK k' s"
  by (auto simp: setOK_def)

lemma setOK_append:
  assumes ok: "setOK k s" and k: "Suc k < 2 ^ 32"
    and app: "PostSet_AddPost (of_nat k + 1) (s\<lparr>SyncRoot := b\<rparr>) = Inr s'"
  shows "setOK (Suc k) (s'\<lparr>SyncRoot := b'\<rparr>)"
proof -
  let ?v = "of_nat k + 1 :: uint32"
  have "?v = of_nat (Suc k)" by simp
  then have v: "unat ?v = Suc k"
    using unat_of_nat32 [OF k] by (simp only:)
  from ok have c: "chunkOK (firstChunk (s\<lparr>SyncRoot := b\<rparr>))" by (simp add: setOK_def)
  from PostSet_AddPost_posting [OF c app]
  have c': "chunkOK (firstChunk s')" and p: "posting (firstChunk s') = posting (firstChunk s) @ [?v]"
    by simp_all
  have "\<forall>x \<in> set (posting (firstChunk s)). x < ?v"
    using ok v by (auto simp: setOK_def word_less_nat_alt)
  with ok c' p v show ?thesis
    by (auto simp: setOK_def sorted_wrt_append)
qed

lemma indexOK_empty: "indexOK 0 emptyIndex"
  by (simp add: indexOK_def emptyIndex_def setsOf_def)

lemma indexOK_AddPost:
  assumes ok: "indexOK k index" and k: "Suc k < 2 ^ 32"
    and add: "PostIndex_AddPost g words index = Inr index'"
  shows "indexOK (Suc k) index'"
proof -
  note S = PostIndex_AddPost_spec [OF add]
  from ok have n: "nextLocalId index = of_nat k" by (simp add: indexOK_def)
  have "\<forall>w s. setsOf index' w = Some s \<longrightarrow> setOK (Suc k) s"
  proof (intro allI impI)
    fix w s assume s: "setsOf index' w = Some s"
    show "setOK (Suc k) s"
    proof (cases "w \<in> set words")
      case True
      with S obtain t t' where t: "extend (setsOf index) words w = Some t"
        and app: "PostSet_AddPost (nextLocalId index + 1) (t\<lparr>SyncRoot := True\<rparr>) = Inr t'"
        and s': "setsOf index' w = Some (t'\<lparr>SyncRoot := False\<rparr>)"
        by (metis (no_types, lifting))
      from t ok have "setOK k t"
        by (auto simp: extend_def indexOK_def setOK_New split: if_splits)
      from app n have "PostSet_AddPost (of_nat k + 1) (t\<lparr>SyncRoot := True\<rparr>) = Inr t'"
        by simp
      from setOK_append [OF \<open>setOK k t\<close> k this, of False] s s' show ?thesis by simp
    next
      case False
      with S s have "setsOf index w = Some s" by simp
      with ok have "setOK k s" by (simp add: indexOK_def)
      then show ?thesis by (rule setOK_mono) simp
    qed
  qed
  with S n show ?thesis by (simp add: indexOK_def)
qed

lemma indexOK_AddPosts:
  "indexOK k index \<Longrightarrow> k + length calls < 2 ^ 32 \<Longrightarrow> AddPosts calls index = Inr index' \<Longrightarrow>
   indexOK (k + length calls) index'"
proof (induction calls arbitrary: k index)
  case Nil
  then show ?case by simp
next
  case (Cons c calls)
  obtain g words where c: "c = (g, words)" by (cases c)
  with Cons.prems(3) obtain index1 where a: "PostIndex_AddPost g words index = Inr index1"
    and r: "AddPosts calls index1 = Inr index'"
    by (auto split: sum.splits)
  from Cons.prems(2) have k: "Suc k < 2 ^ 32" by simp
  from indexOK_AddPost [OF Cons.prems(1) k a] have "indexOK (Suc k) index1" .
  from Cons.IH [OF this _ r] Cons.prems(2) show ?case by simp
qed

lemma postingList_setsOf:
  "postingList index w = (case setsOf index w of None \<Rightarrow> [] | Some s \<Rightarrow> posting (firstChunk s))"
  by (simp add: postingList_def findSetChunkForQuery_def setsOf_def FirstChunk_def split: option.splits)

lemma AddPost_no_words:
  "PostIndex_AddPost g [] index =
     Inr (addIdMapping g (nextLocalId index + 1)
           (index\<lparr>sets := Some (setsOf index), nextLocalId := nextLocalId index + 1\<rparr>))"
  by (simp add: PostIndex_AddPost_def findOrCreateSets_spec extend_def Let_def)

lemma AddPosts_append:
  "AddPosts (xs @ ys) index =
     (case AddPosts xs index of Inl e \<Rightarrow> Inl e | Inr index' \<Rightarrow> AddPosts ys index')"
  by (induction xs arbitrary: index) (auto split: sum.splits)

lemma AddPosts_no_words:
  "\<exists>im. AddPosts (replicate (Suc n) (g, [])) index =
     Inr \<lparr>nextLocalId = nextLocalId index + of_nat (Suc n), sets = Some (setsOf index), idMap = Some im\<rparr>"
proof (induction n arbitrary: index)
  case 0
  show ?case by (cases index) (simp add: AddPost_no_words addIdMapping_def)
next
  case (Suc n)
  let ?i1 = "addIdMapping g (nextLocalId index + 1)
           (index\<lparr>sets := Some (setsOf index), nextLocalId := nextLocalId index + 1\<rparr>)"
  from Suc.IH [of ?i1] obtain im where
    "AddPosts (replicate (Suc n) (g, [])) ?i1 =
       Inr \<lparr>nextLocalId = nextLocalId ?i1 + of_nat (Suc n), sets = Some (setsOf ?i1), idMap = Some im\<rparr>"
    by blast
  moreover have "nextLocalId ?i1 = nextLocalId index + 1" by (simp add: addIdMapping_def)
  moreover have "AddPosts (replicate (Suc (Suc n)) (g, [])) index = AddPosts (replicate (Suc n) (g, [])) ?i1"
    by (simp add: AddPost_no_words)
  moreover have "setsOf ?i1 = setsOf index" by (simp add: addIdMapping_def setsOf_def)
  ultimately show ?case by (simp add: add.assoc)
qed

lemma zeroIDs_unfold: "zeroIDs = 0 # 0 # replicate 4094 0"
proof -
  have "(4096 :: nat) = Suc (Suc 4094)" by simp
  then show ?thesis unfolding zeroIDs_def by (simp only: replicate_Suc)
qed

lemma lockAll_error:
  "\<forall>w \<in> set ws. setsOf index w \<noteq> None \<Longrightarrow> lockAll (map Some ws) index = Inl e \<Longrightarrow> e = Deadlock"
proof (induction ws arbitrary: index)
  case Nil
  then show ?case by simp
next
  case (Cons w ws)
  from Cons.prems(1) obtain s where s: "setsOf index w = Some s" by auto
  show ?case
  proof (cases "SyncRoot s")
    case True
    with Cons.prems(2) s show ?thesis by (simp add: deref_setsOf)
  next
    case False
    with Cons.prems(2) s
    have r: "lockAll (map Some ws) (assign index w (s\<lparr>SyncRoot := True\<rparr>)) = Inl e"
      by (simp add: deref_setsOf)
    have "\<forall>w' \<in> set ws. setsOf (assign index w (s\<lparr>SyncRoot := True\<rparr>)) w' \<noteq> None"
      using Cons.prems(1) by simp
    from Cons.IH [OF this r] show ?thesis .
  qed
qed

lemmas ingest_defs = PostIndex_AddPost_def findOrCreateSets_def
          lookupPass_def deref_def assign_def NewPostSet_def addIdMapping_def PostSet_AddPost_def
          FirstChunk_def ChunkSize_def

lemma postingAfter_append:
  "postingAfter (xs @ ys) w =
     (case AddPosts xs emptyIndex of
        Inl e \<Rightarrow> None
      | Inr index \<Rightarrow>
          (case AddPosts ys index of Inl e \<Rightarrow> None | Inr index' \<Rightarrow> Some (postingList index' w)))"
  by (simp add: postingAfter_def AddPosts_append split: sum.splits)

lemma AddPosts_no_words':
  "0 < n \<Longrightarrow> \<exists>im. AddPosts (replicate n (g, [])) index =
     Inr \<lparr>nextLocalId = nextLocalId index + of_nat n, sets = Some (setsOf index), idMap = Some im\<rparr>"
  using AddPosts_no_words [of "n - 1" g index] by simp






subsection \<open>Claims about ingestion\<close>

text \<open>
  C2 (as stated): for every sequence of \<^verbatim>\<open>AddPost\<close> calls and every term, the term's
  posting list is strictly ascending after every call. The counter is an \<^verbatim>\<open>int32\<close> and
  wraps: after \<open>2^32 - 2\<close> calls without terms, two calls with the term \<^verbatim>\<open>a\<close> are given
  the local ids \<open>2^32 - 1\<close> and \<open>0\<close>, and the list of \<^verbatim>\<open>a\<close> is not ascending.
\<close>

theorem ascending_list_counterexample:
  "postingAfter (replicate 4294967294 (0, []) @ [(0, [''a'']), (0, [''a''])]) ''a''
     = Some [4294967295, 0] \<and>
   \<not> sorted_wrt (<) [4294967295, 0 :: uint32]"
proof -
  have "\<exists>im. AddPosts (replicate 4294967294 (0, [])) emptyIndex =
       Inr \<lparr>nextLocalId = nextLocalId emptyIndex + of_nat 4294967294,
             sets = Some (setsOf emptyIndex), idMap = Some im\<rparr>"
    by (rule AddPosts_no_words') simp
  then obtain im where run:
    "AddPosts (replicate 4294967294 (0, [])) emptyIndex =
       Inr \<lparr>nextLocalId = 4294967294, sets = Some Map.empty, idMap = Some im\<rparr>"
    by (auto simp: emptyIndex_def setsOf_def)
  have "(case AddPosts [(0, [''a'']), (0, [''a''])]
               \<lparr>nextLocalId = 4294967294, sets = Some Map.empty, idMap = Some im\<rparr> of
           Inl e \<Rightarrow> None | Inr index' \<Rightarrow> Some (postingList index' ''a''))
        = Some (take 2 (zeroIDs[0 := 4294967295, 1 := 4294967296]))"
    by (simp add: ingest_defs postingList_def findSetChunkForQuery_def)
  then have "(case AddPosts [(0, [''a'']), (0, [''a''])]
               \<lparr>nextLocalId = 4294967294, sets = Some Map.empty, idMap = Some im\<rparr> of
           Inl e \<Rightarrow> None | Inr index' \<Rightarrow> Some (postingList index' ''a''))
        = Some [4294967295, 0]"
    by (simp add: zeroIDs_unfold)
  then have "postingAfter (replicate 4294967294 (0, []) @ [(0, [''a'']), (0, [''a''])]) ''a''
     = Some [4294967295, 0]"
    unfolding postingAfter_append run by (simp only: sum.case)
  then show ?thesis by simp
qed


text \<open>
  C2 (amended): for every sequence of fewer than \<open>2^32\<close> \<^verbatim>\<open>AddPost\<close> calls on a fresh
  index, each of which has returned, and for every term, the term's posting list holds
  local ids in strictly ascending order (equivalently, read newest to oldest it is strictly
  descending). Every prefix of such a sequence is such a sequence, so this holds after
  every call, for every input term list.
\<close>

theorem ascending_list:
  assumes "postingAfter calls w = Some ids" and "length calls < 2 ^ 32"
  shows "sorted_wrt (<) ids \<and> sorted_wrt (>) (rev ids)"
proof -
  from assms(1) obtain index where run: "AddPosts calls emptyIndex = Inr index"
    and ids: "ids = postingList index w"
    by (auto simp: postingAfter_def split: sum.splits)
  from indexOK_AddPosts [OF indexOK_empty _ run] assms(2)
  have "indexOK (length calls) index" by simp
  then have "sorted_wrt (<) ids"
    using ids by (auto simp: postingList_setsOf indexOK_def setOK_def split: option.splits)
  then show ?thesis by (simp add: sorted_wrt_rev)
qed


theorem ascending_list_witness:
  "postingAfter [(1, [''b'', ''a'']), (7, [''a''])] ''a'' = Some [1, 2] \<and>
   sorted_wrt (<) [1, 2 :: uint32] \<and> sorted_wrt (>) (rev [1, 2 :: uint32])"
proof -
  have "postingAfter [(1, [''b'', ''a'']), (7, [''a''])] ''a''
      = Some (take 2 (zeroIDs[0 := 1, 1 := 2]))"
    by (simp add: postingAfter_def ingest_defs postingList_def findSetChunkForQuery_def emptyIndex_def)
  then have run: "postingAfter [(1, [''b'', ''a'']), (7, [''a''])] ''a'' = Some [1, 2]"
    by (simp add: zeroIDs_unfold)
  from ascending_list [OF run] run show ?thesis by simp
qed



text \<open>
  C5: a call \<^verbatim>\<open>AddPost(g, words)\<close> whose word list holds a term more than once does not
  deduplicate: \<^verbatim>\<open>findOrCreateSets\<close> returns the same \<^verbatim>\<open>*PostSet\<close> once per occurrence,
  the locking loop locks its mutex a second time, and the call never returns, whatever the
  index holds. No id is assigned and nothing is appended.
\<close>

theorem duplicate_term_deadlock:
  assumes "\<not> distinct words"
  shows "PostIndex_AddPost g words index = Inl Deadlock"
proof -
  let ?ws = "sort words"
  let ?i1 = "index\<lparr>sets := Some (extend (setsOf index) ?ws)\<rparr>"
  have valid: "\<forall>w \<in> set ?ws. setsOf ?i1 w \<noteq> None"
    by (simp add: extend_def)
  show ?thesis
  proof (cases "lockAll (map Some ?ws) ?i1")
    case (Inl e)
    from lockAll_error [OF valid Inl] Inl show ?thesis
      by (simp add: PostIndex_AddPost_def findOrCreateSets_spec)
  next
    case (Inr i2)
    from lockAll_spec [OF Inr] have "distinct words" by simp
    with assms show ?thesis by simp
  qed
qed


theorem duplicate_term_deadlock_witness:
  "\<not> distinct [''a'', ''a''] \<and> PostIndex_AddPost 1 [''a'', ''a''] emptyIndex = Inl Deadlock"
proof -
  have d: "\<not> distinct [''a'', ''a'']" by simp
  from duplicate_term_deadlock [OF d] d show ?thesis by blast
qed





subsection \<open>The parser's loops\<close>


lemma scanLiteral_no_quote:
  "(\<forall>j. i \<le> j \<and> j < length query \<longrightarrow> query ! j \<noteq> CHR 0x22) \<Longrightarrow> length query \<le> scanLiteral query i"
proof (induction query i rule: scanLiteral.induct)
  case (1 query i)
  show ?case
  proof (cases "i < length query")
    case True
    with 1(2) have nq: "query ! i \<noteq> CHR 0x22" by simp
    with True have eq: "scanLiteral query i = scanLiteral query (i + 1)"
      by (subst scanLiteral.simps) simp
    from 1(2) have "\<forall>j. i + 1 \<le> j \<and> j < length query \<longrightarrow> query ! j \<noteq> CHR 0x22" by simp
    with 1(1) True nq eq show ?thesis by simp
  next
    case False
    then have eq: "scanLiteral query i = i"
      by (subst scanLiteral.simps) auto
    with False show ?thesis by simp
  qed
qed

lemma scanLiteral_append:
  "scanLiteral pre i < length pre \<Longrightarrow> scanLiteral (pre @ suf) i = scanLiteral pre i"
proof (induction pre i rule: scanLiteral.induct)
  case (1 query i)
  from scanLiteral_ge [of i query] 1(2) have lt: "i < length query" by simp
  show ?case
  proof (cases "query ! i \<noteq> CHR 0x22")
    case True
    with lt have eq: "scanLiteral query i = scanLiteral query (i + 1)"
      by (subst scanLiteral.simps) simp
    from True lt have eq2: "scanLiteral (query @ suf) i = scanLiteral (query @ suf) (i + 1)"
      by (subst scanLiteral.simps) (simp add: nth_append)
    from 1 True lt eq eq2 show ?thesis by simp
  next
    case False
    then have eq: "scanLiteral query i = i"
      by (subst scanLiteral.simps) auto
    from False lt have eq2: "scanLiteral (query @ suf) i = i"
      by (subst scanLiteral.simps) (simp add: nth_append)
    with eq show ?thesis by simp
  qed
qed


lemma ParseQuery_loop_end:
  "length query \<le> i \<Longrightarrow> ParseQuery_loop index query i stack = Inr stack"
  by (subst ParseQuery_loop.simps) simp

lemma butlast_nonempty: "\<not> length stack < 2 \<Longrightarrow> butlast stack \<noteq> [] \<and> stack \<noteq> []"
  by (cases stack rule: rev_cases) auto

lemma ParseQuery_loop_and:
  "i < length query \<Longrightarrow> query ! i = CHR ''&'' \<Longrightarrow>
   ParseQuery_loop index query i stack =
     (if length stack < 2 then Inl (ParseError (int i) ''Need two operands for &'')
      else ParseQuery_loop index query (i + 1)
             (Push (butlast (butlast stack)) (NewAndOperator (last stack) (last (butlast stack)))))"
  by (subst ParseQuery_loop.simps) (simp add: Pop_def butlast_nonempty)

lemma ParseQuery_loop_or:
  "i < length query \<Longrightarrow> query ! i = CHR ''|'' \<Longrightarrow>
   ParseQuery_loop index query i stack =
     (if length stack < 2 then Inl (ParseError (int i) ''Need two operands for |'')
      else ParseQuery_loop index query (i + 1)
             (Push (butlast (butlast stack)) (NewOrOperator (last stack) (last (butlast stack)))))"
  by (subst ParseQuery_loop.simps) (simp add: Pop_def butlast_nonempty)

lemma ParseQuery_loop_literal:
  "i < length query \<Longrightarrow> query ! i = CHR 0x22 \<Longrightarrow>
   ParseQuery_loop index query i stack =
     (if length query \<le> scanLiteral query (i + 2)
      then Inl (ParseError (int i) ''Unterminated string constant'')
      else ParseQuery_loop index query (scanLiteral query (i + 2) + 1)
             (Push stack (TerminalOperator
                (findSetChunkForQuery index (slice query (i + 1) (scanLiteral query (i + 2)))) 0)))"
  by (subst ParseQuery_loop.simps) (simp add: Let_def add.commute)

lemma ParseQuery_loop_other:
  "i < length query \<Longrightarrow> query ! i \<noteq> CHR ''&'' \<Longrightarrow> query ! i \<noteq> CHR ''|'' \<Longrightarrow>
   query ! i \<noteq> CHR 0x22 \<Longrightarrow>
   ParseQuery_loop index query i stack = Inl (ParseError (int i) ''Unexpected character'')"
  by (subst ParseQuery_loop.simps) simp

lemma slice_nonempty: "start < i \<Longrightarrow> i < length query \<Longrightarrow> slice query start i \<noteq> []"
  by (simp add: slice_def)

lemma slice_append: "i \<le> length pre \<Longrightarrow> slice (pre @ suf) start i = slice pre start i"
  by (simp add: slice_def)

lemma ParseQuery_loop_cong_index:
  assumes same: "\<forall>w. w \<noteq> [] \<longrightarrow> findSetChunkForQuery index w = findSetChunkForQuery index' w"
  shows "ParseQuery_loop index query i stack = ParseQuery_loop index' query i stack"
proof (induction "length query - i" arbitrary: i stack rule: less_induct)
  case less
  show ?case
  proof (cases "i < length query")
    case False
    then show ?thesis by (simp add: ParseQuery_loop_end)
  next
    case lt: True
    consider (a) "query ! i = CHR ''&''" | (b) "query ! i = CHR ''|''" | (c) "query ! i = CHR 0x22"
      | (d) "query ! i \<noteq> CHR ''&''" "query ! i \<noteq> CHR ''|''" "query ! i \<noteq> CHR 0x22"
      by blast
    then show ?thesis
    proof cases
      case a
      have "length query - (i + 1) < length query - i" using lt by simp
      from less [OF this] show ?thesis
        by (simp add: ParseQuery_loop_and [OF lt a])
    next
      case b
      have "length query - (i + 1) < length query - i" using lt by simp
      from less [OF this] show ?thesis
        by (simp add: ParseQuery_loop_or [OF lt b])
    next
      case c
      let ?j = "scanLiteral query (i + 2)"
      show ?thesis
      proof (cases "length query \<le> ?j")
        case True
        then show ?thesis by (simp add: ParseQuery_loop_literal [OF lt c])
      next
        case False
        have ge: "i + 2 \<le> ?j" by (rule scanLiteral_ge)
        with False have "slice query (i + 1) ?j \<noteq> []"
          by (intro slice_nonempty) simp_all
        with same have eq: "findSetChunkForQuery index (slice query (i + 1) ?j)
            = findSetChunkForQuery index' (slice query (i + 1) ?j)" by simp
        have "length query - (?j + 1) < length query - i" using False ge by simp
        from less [OF this] False eq show ?thesis
          by (simp add: ParseQuery_loop_literal [OF lt c])
      qed
    next
      case d
      then show ?thesis by (simp add: ParseQuery_loop_other [OF lt])
    qed
  qed
qed

lemma ParseQuery_loop_prefix:
  "ParseQuery_loop index pre i stack = Inr stack' \<Longrightarrow> i \<le> length pre \<Longrightarrow>
   ParseQuery_loop index (pre @ suf) i stack = ParseQuery_loop index (pre @ suf) (length pre) stack'"
proof (induction "length pre - i" arbitrary: i stack rule: less_induct)
  case less
  show ?case
  proof (cases "i < length pre")
    case False
    with less.prems show ?thesis by (simp add: ParseQuery_loop_end)
  next
    case lt: True
    then have lt': "i < length (pre @ suf)" and nth: "(pre @ suf) ! i = pre ! i"
      by (simp_all add: nth_append)
    consider (a) "pre ! i = CHR ''&''" | (b) "pre ! i = CHR ''|''" | (c) "pre ! i = CHR 0x22"
      | (d) "pre ! i \<noteq> CHR ''&''" "pre ! i \<noteq> CHR ''|''" "pre ! i \<noteq> CHR 0x22"
      by blast
    then show ?thesis
    proof cases
      case a
      have m: "length pre - (i + 1) < length pre - i" using lt by simp
      from a nth have a': "(pre @ suf) ! i = CHR ''&''" by simp
      from less.prems(1) have ok: "\<not> length stack < 2"
        by (auto simp: ParseQuery_loop_and [OF lt a] split: if_splits)
      with less.prems(1) have "ParseQuery_loop index pre (i + 1)
             (Push (butlast (butlast stack)) (NewAndOperator (last stack) (last (butlast stack)))) = Inr stack'"
        by (simp add: ParseQuery_loop_and [OF lt a])
      from less.hyps [OF m this] lt ok show ?thesis
        by (simp add: ParseQuery_loop_and [OF lt' a'])
    next
      case b
      have m: "length pre - (i + 1) < length pre - i" using lt by simp
      from b nth have b': "(pre @ suf) ! i = CHR ''|''" by simp
      from less.prems(1) have ok: "\<not> length stack < 2"
        by (auto simp: ParseQuery_loop_or [OF lt b] split: if_splits)
      with less.prems(1) have "ParseQuery_loop index pre (i + 1)
             (Push (butlast (butlast stack)) (NewOrOperator (last stack) (last (butlast stack)))) = Inr stack'"
        by (simp add: ParseQuery_loop_or [OF lt b])
      from less.hyps [OF m this] lt ok show ?thesis
        by (simp add: ParseQuery_loop_or [OF lt' b'])
    next
      case c
      let ?j = "scanLiteral pre (i + 2)"
      from c nth have c': "(pre @ suf) ! i = CHR 0x22" by simp
      from less.prems(1) have ok: "?j < length pre"
        by (auto simp: ParseQuery_loop_literal [OF lt c] split: if_splits)
      then have sc: "scanLiteral (pre @ suf) (i + 2) = ?j"
        by (rule scanLiteral_append)
      have ge: "i + 2 \<le> ?j" by (rule scanLiteral_ge)
      have m: "length pre - (?j + 1) < length pre - i" using ok ge by simp
      from ok less.prems(1) have "ParseQuery_loop index pre (?j + 1)
             (Push stack (TerminalOperator (findSetChunkForQuery index (slice pre (i + 1) ?j)) 0)) = Inr stack'"
        by (simp add: ParseQuery_loop_literal [OF lt c])
      from less.hyps [OF m this] ok sc show ?thesis
        by (simp add: ParseQuery_loop_literal [OF lt' c'] slice_append)
    next
      case d
      with less.prems(1) show ?thesis by (simp add: ParseQuery_loop_other [OF lt])
    qed
  qed
qed

lemma ParseQuery_loop_unterminated:
  assumes "i < length query" and "query ! i = CHR 0x22"
    and "\<forall>j. i + 2 \<le> j \<and> j < length query \<longrightarrow> query ! j \<noteq> CHR 0x22"
  shows "ParseQuery_loop index query i stack = Inl (ParseError (int i) ''Unterminated string constant'')"
  using scanLiteral_no_quote [OF assms(3)] by (simp add: ParseQuery_loop_literal [OF assms(1,2)])

subsection \<open>Claims about the parser\<close>

text \<open>
  C6 (as stated): for the five-character input \<^verbatim>\<open>"a" &\<close> parsing returns a parse error at
  byte offset 4 with the message "Need two operands for &". The code stops one byte
  earlier: the space at offset 3 is no token, and the error there is "Unexpected
  character".
\<close>

theorem parse_a_space_and_counterexample:
  \<open>ParseQuery emptyIndex ''"a" &'' = Inl (ParseError 3 ''Unexpected character'') \<and>
   ParseQuery emptyIndex ''"a" &'' \<noteq> Inl (ParseError 4 ''Need two operands for &'')\<close>
  by (simp add: ParseQuery_def ParseQuery_loop.simps scanLiteral.simps Push_def Pop_def)

text \<open>
  C6 (amended): for the five-character input \<^verbatim>\<open>"a" &\<close> parsing returns a parse error at
  byte offset 3 with the message "Unexpected character", whatever the index holds; the
  four-character input \<^verbatim>\<open>"a"&\<close> (no space) returns a parse error at byte offset 3 with the
  message "Need two operands for &".
\<close>

theorem parse_a_space_and:
  \<open>ParseQuery index ''"a" &'' = Inl (ParseError 3 ''Unexpected character'') \<and>
   ParseQuery index ''"a"&'' = Inl (ParseError 3 ''Need two operands for &'')\<close>
  by (simp add: ParseQuery_def ParseQuery_loop.simps scanLiteral.simps Push_def Pop_def)

text \<open>
  C7 (as stated): for every query string in which an opening quote is never matched by a
  closing quote, parsing returns "Unterminated string constant" at the offset of that
  quote. The parser reports the first error it meets: in \<^verbatim>\<open>&"a\<close> the quote at offset 1 is
  never closed, and the error is the one of the \<^verbatim>\<open>&\<close> at offset 0.
\<close>

theorem unterminated_literal_counterexample:
  \<open>''&"a'' ! 1 = CHR 0x22 \<and> CHR 0x22 \<notin> set (drop 2 ''&"a'') \<and>
   ParseQuery emptyIndex ''&"a'' = Inl (ParseError 0 ''Need two operands for &'') \<and>
   ParseQuery emptyIndex ''&"a'' \<noteq> Inl (ParseError 1 ''Unterminated string constant'')\<close>
  by (simp add: ParseQuery_def ParseQuery_loop.simps scanLiteral.simps Push_def Pop_def)

text \<open>
  C7 (amended): when the text \<open>pre\<close> before an opening quote is a sequence of complete
  tokens that the parser accepts (the main loop run on \<open>pre\<close> alone ends without an error),
  and no quote occurs two or more bytes after the opening quote, parsing returns the error
  "Unterminated string constant" whose position is the byte offset of that opening quote;
  in particular parsing \<^verbatim>\<open>"unterminated\<close> yields this error at offset 0.
\<close>

theorem unterminated_literal:
  \<open>(ParseQuery_loop index pre 0 [] = Inr stack \<and> CHR 0x22 \<notin> set (drop 1 rest) \<longrightarrow>
      ParseQuery index (pre @ CHR 0x22 # rest)
        = Inl (ParseError (int (length pre)) ''Unterminated string constant'')) \<and>
   ParseQuery index ''"unterminated'' = Inl (ParseError 0 ''Unterminated string constant'')\<close>
proof (intro conjI impI)
  assume asm: "ParseQuery_loop index pre 0 [] = Inr stack \<and> CHR 0x22 \<notin> set (drop 1 rest)"
  let ?q = "pre @ CHR 0x22 # rest"
  have reach: "ParseQuery_loop index ?q 0 [] = ParseQuery_loop index ?q (length pre) stack"
    using ParseQuery_loop_prefix [of index pre 0 "[]" stack "CHR 0x22 # rest"] asm by simp
  have nq: "\<forall>j. length pre + 2 \<le> j \<and> j < length ?q \<longrightarrow> ?q ! j \<noteq> CHR 0x22"
  proof (intro allI impI)
    fix j assume j: "length pre + 2 \<le> j \<and> j < length ?q"
    then obtain k where k: "j = length pre + 2 + k"
      using le_Suc_ex by blast
    with j have kl: "k < length (drop 1 rest)" by simp
    from k have "?q ! j = drop 1 rest ! k"
      using kl by (simp add: nth_append)
    moreover from kl have "drop 1 rest ! k \<in> set (drop 1 rest)"
      by (rule nth_mem)
    ultimately show "?q ! j \<noteq> CHR 0x22"
      using asm by auto
  qed
  have "ParseQuery_loop index ?q (length pre) stack
          = Inl (ParseError (int (length pre)) ''Unterminated string constant'')"
    by (rule ParseQuery_loop_unterminated [OF _ _ nq]) simp_all
  with reach show "ParseQuery index ?q
      = Inl (ParseError (int (length pre)) ''Unterminated string constant'')"
    by (simp add: ParseQuery_def)
next
  show \<open>ParseQuery index ''"unterminated'' = Inl (ParseError 0 ''Unterminated string constant'')\<close>
    by (simp add: ParseQuery_def ParseQuery_loop.simps scanLiteral.simps Push_def Pop_def)
qed

theorem unterminated_literal_witness:
  \<open>ParseQuery_loop emptyIndex ''"a""b"|'' 0 []
     = Inr [NewOrOperator (TerminalOperator None 0) (TerminalOperator None 0)] \<and>
   CHR 0x22 \<notin> set (drop 1 ''cd'') \<and>
   ParseQuery emptyIndex ''"a""b"|"cd''
     = Inl (ParseError 7 ''Unterminated string constant'')\<close>
proof -
  have pre: \<open>ParseQuery_loop emptyIndex ''"a""b"|'' 0 []
     = Inr [NewOrOperator (TerminalOperator None 0) (TerminalOperator None 0)]\<close>
    by (simp add: ParseQuery_loop.simps scanLiteral.simps Push_def Pop_def slice_def
          findSetChunkForQuery_def emptyIndex_def)
  have nq: "CHR 0x22 \<notin> set (drop 1 ''cd'')" by simp
  from unterminated_literal [of emptyIndex \<open>''"a""b"|''\<close>
         "[NewOrOperator (TerminalOperator None 0) (TerminalOperator None 0)]" "''cd''"]
       pre nq
  show ?thesis by simp
qed

text \<open>
  C10: a parsed term literal never has an empty body. The parser takes the byte after the
  opening quote as body text without looking at it, so the two-character query \<^verbatim>\<open>""\<close> is
  rejected with "Unterminated string constant" at offset 0 (and three quotes are the
  literal whose body is a quote), and the parser never looks the empty term up: two
  indexes that agree on every non-empty term give the same parse of every query.
\<close>

theorem literal_body_nonempty:
  \<open>ParseQuery index ''""'' = Inl (ParseError 0 ''Unterminated string constant'') \<and>
   ParseQuery index ''"""'' = Inr (newQueryNode (TerminalOperator (findSetChunkForQuery index ''"'') 0)) \<and>
   ((\<forall>w. w \<noteq> [] \<longrightarrow> findSetChunkForQuery index w = findSetChunkForQuery index' w) \<longrightarrow>
      ParseQuery index query = ParseQuery index' query)\<close>
proof (intro conjI impI)
  show \<open>ParseQuery index ''""'' = Inl (ParseError 0 ''Unterminated string constant'')\<close>
    by (simp add: ParseQuery_def ParseQuery_loop.simps scanLiteral.simps Push_def Pop_def)
next
  show \<open>ParseQuery index ''"""''
      = Inr (newQueryNode (TerminalOperator (findSetChunkForQuery index ''"'') 0))\<close>
    by (simp add: ParseQuery_def ParseQuery_loop.simps scanLiteral.simps Push_def Pop_def slice_def)
next
  assume "\<forall>w. w \<noteq> [] \<longrightarrow> findSetChunkForQuery index w = findSetChunkForQuery index' w"
  then have "ParseQuery_loop index query 0 [] = ParseQuery_loop index' query 0 []"
    by (rule ParseQuery_loop_cong_index)
  then show "ParseQuery index query = ParseQuery index' query"
    by (simp add: ParseQuery_def)
qed

theorem literal_body_nonempty_witness:
  \<open>findSetChunkForQuery emptyIndex []
     \<noteq> findSetChunkForQuery (emptyIndex\<lparr>sets := Some [[] \<mapsto> NewPostSet]\<rparr>) [] \<and>
   ParseQuery emptyIndex ''"a"""""|''
     = ParseQuery (emptyIndex\<lparr>sets := Some [[] \<mapsto> NewPostSet]\<rparr>) ''"a"""""|''\<close>
proof -
  have h: "\<forall>w. w \<noteq> [] \<longrightarrow>
      findSetChunkForQuery emptyIndex w
        = findSetChunkForQuery (emptyIndex\<lparr>sets := Some [[] \<mapsto> NewPostSet]\<rparr>) w"
    by (simp add: findSetChunkForQuery_def emptyIndex_def)
  have d: "findSetChunkForQuery emptyIndex []
     \<noteq> findSetChunkForQuery (emptyIndex\<lparr>sets := Some [[] \<mapsto> NewPostSet]\<rparr>) []"
    by (simp add: findSetChunkForQuery_def emptyIndex_def)
  from literal_body_nonempty [of emptyIndex "emptyIndex\<lparr>sets := Some [[] \<mapsto> NewPostSet]\<rparr>"
         \<open>''"a"""""|''\<close>] h d
  show ?thesis by simp
qed

subsection \<open>Runs and evaluations used by the claims about queries\<close>

lemma sint_of_nat32: "k < 2 ^ 31 \<Longrightarrow> sint (of_nat k :: int32) = int k"
proof -
  assume k: "k < 2 ^ 31"
  have "sint (of_nat k :: int32) = sint (word_of_int (int k) :: int32)" by simp
  also have "\<dots> = signed_take_bit (LENGTH(32) - 1) (int k)"
    by (simp only: sint_sbintrunc')
  also have "\<dots> = int k"
    using k by (simp add: signed_take_bit_int_eq_self)
  finally show ?thesis .
qed

lemma setsOf_idMap [simp]: "setsOf (index\<lparr>idMap := x\<rparr>) = setsOf index"
  by (simp add: setsOf_def)

lemma findSetChunkForQuery_setsOf:
  "findSetChunkForQuery index w = map_option firstChunk (setsOf index w)"
  by (simp add: findSetChunkForQuery_def setsOf_def FirstChunk_def split: option.splits)

lemma AddPost_one_word:
  assumes s: "extend (setsOf index) [w] w = Some s" and unl: "\<not> SyncRoot s"
    and app: "PostSet_AddPost (nextLocalId index + 1) (s\<lparr>SyncRoot := True\<rparr>) = Inr s'"
  shows "\<exists>index'. PostIndex_AddPost g [w] index = Inr index' \<and>
           nextLocalId index' = nextLocalId index + 1 \<and>
           setsOf index' w = Some (s'\<lparr>SyncRoot := False\<rparr>)"
  using s unl app
  by (simp add: PostIndex_AddPost_def findOrCreateSets_spec deref_setsOf Let_def addIdMapping_def)

lemma PostSet_AddPost_not_full:
  "Length (firstChunk s) \<noteq> ChunkSize \<Longrightarrow> 0 \<le> sint (Length (firstChunk s)) \<Longrightarrow>
   sint (Length (firstChunk s)) < 4096 \<Longrightarrow>
   PostSet_AddPost v s =
     Inr (s\<lparr>firstChunk := PostChunk ((IDs (firstChunk s))[nat (sint (Length (firstChunk s))) := v])
                              (Length (firstChunk s) + 1) (Next (firstChunk s))\<rparr>)"
  by (simp add: PostSet_AddPost_def FirstChunk_def ChunkSize_def Let_def)

lemma fill_slot:
  "length xs = k \<Longrightarrow> (xs @ replicate (Suc m) z)[k := v] = (xs @ [v]) @ replicate m z"
  by (simp add: list_update_append)

lemma run_one_term:
  "k \<le> 4096 \<Longrightarrow>
   \<exists>index. AddPosts (replicate k (g, [w])) emptyIndex = Inr index \<and>
     nextLocalId index = of_nat k \<and>
     setsOf index w =
       (if k = 0 then None
        else Some \<lparr>firstChunk = PostChunk (map of_nat [1..<Suc k] @ replicate (4096 - k) 0) (of_nat k) None,
                   SyncRoot = False\<rparr>)"
proof (induction k)
  case 0
  show ?case by (simp add: emptyIndex_def setsOf_def)
next
  case (Suc k)
  then have k: "k < 4096" by simp
  with Suc.IH obtain index where run: "AddPosts (replicate k (g, [w])) emptyIndex = Inr index"
    and n: "nextLocalId index = of_nat k"
    and st: "setsOf index w =
       (if k = 0 then None
        else Some \<lparr>firstChunk = PostChunk (map of_nat [1..<Suc k] @ replicate (4096 - k) 0) (of_nat k) None,
                   SyncRoot = False\<rparr>)"
    by auto
  let ?ids = "map of_nat [1..<Suc k] @ replicate (4096 - k) (0 :: uint32)"
  let ?s = "\<lparr>firstChunk = PostChunk ?ids (of_nat k) None, SyncRoot = False\<rparr>"
  have ext: "extend (setsOf index) [w] w = Some ?s"
    using st by (cases "k = 0") (simp_all add: extend_def NewPostSet_def zeroIDs_def)
  have sk: "sint (of_nat k :: int32) = int k"
    using k by (simp add: sint_of_nat32)
  have ne: "(of_nat k :: int32) \<noteq> 4096"
  proof
    assume "(of_nat k :: int32) = 4096"
    then have "sint (of_nat k :: int32) = 4096" by simp
    with sk k show False by simp
  qed
  have m: "4096 - k = Suc (4096 - Suc k)" using k by simp
  have upd: "?ids[k := v] = (map of_nat [1..<Suc k] @ [v]) @ replicate (4096 - Suc k) 0" for v
    unfolding m by (subst fill_slot) simp_all
  have v: "nextLocalId index + 1 = of_nat (Suc k)" using n by simp
  have "map of_nat [1..<Suc (Suc k)] = map of_nat [1..<Suc k] @ [of_nat (Suc k) :: uint32]"
    by simp
  with upd [of "of_nat (Suc k)"]
  have upd': "?ids[k := of_nat (Suc k)] = map of_nat [1..<Suc (Suc k)] @ replicate (4096 - Suc k) 0"
    by (simp only:)
  have "PostSet_AddPost (of_nat (Suc k)) (?s\<lparr>SyncRoot := True\<rparr>)
      = Inr (?s\<lparr>SyncRoot := True\<rparr>\<lparr>firstChunk := PostChunk (?ids[nat (sint (of_nat k :: int32)) := of_nat (Suc k)])
                              (of_nat k + 1) None\<rparr>)"
    using ne sk k by (subst PostSet_AddPost_not_full) (simp_all add: ChunkSize_def del: upt_Suc of_nat_Suc)
  also have "nat (sint (of_nat k :: int32)) = k" using sk by simp
  finally have app: "PostSet_AddPost (nextLocalId index + 1) (?s\<lparr>SyncRoot := True\<rparr>)
      = Inr \<lparr>firstChunk = PostChunk (map of_nat [1..<Suc (Suc k)] @ replicate (4096 - Suc k) 0)
                              (of_nat (Suc k)) None, SyncRoot = True\<rparr>"
    unfolding upd' v by (simp del: upt_Suc of_nat_Suc) simp
  from AddPost_one_word [OF ext _ app, of g] obtain index' where
    "PostIndex_AddPost g [w] index = Inr index'" "nextLocalId index' = nextLocalId index + 1"
    "setsOf index' w = Some \<lparr>firstChunk = PostChunk (map of_nat [1..<Suc (Suc k)] @ replicate (4096 - Suc k) 0)
                              (of_nat (Suc k)) None, SyncRoot = False\<rparr>"
    by auto
  moreover have "replicate (Suc k) (g, [w]) = replicate k (g, [w]) @ [(g, [w])]"
    by (simp add: replicate_append_same)
  ultimately show ?case using run n
    by (simp add: AddPosts_append del: replicate_Suc)
qed

lemma run_4097:
  "map_sum id (\<lambda>index. findSetChunkForQuery index ''a'') (AddPosts (replicate 4097 (0, [''a''])) emptyIndex)
     = Inr (Some chunk4097)"
proof -
  from run_one_term [of 4096 0 "''a''"] obtain index where
    run: "AddPosts (replicate 4096 (0, [''a''])) emptyIndex = Inr index"
    and n: "nextLocalId index = 4096"
    and st: "setsOf index ''a'' = Some \<lparr>firstChunk = older, SyncRoot = False\<rparr>"
    by (auto simp: older_def simp del: upt_Suc)
  have ext: "extend (setsOf index) [''a''] ''a'' = Some \<lparr>firstChunk = older, SyncRoot = False\<rparr>"
    using st by (simp add: extend_def)
  have app: "PostSet_AddPost (nextLocalId index + 1) (\<lparr>firstChunk = older, SyncRoot = False\<rparr>\<lparr>SyncRoot := True\<rparr>)
      = Inr \<lparr>firstChunk = chunk4097, SyncRoot = True\<rparr>"
    using n by (simp add: PostSet_AddPost_def FirstChunk_def ChunkSize_def older_def chunk4097_def)
  from AddPost_one_word [OF ext _ app, of 0] obtain index' where
    a: "PostIndex_AddPost 0 [''a''] index = Inr index'"
    and s': "setsOf index' ''a'' = Some \<lparr>firstChunk = chunk4097, SyncRoot = False\<rparr>"
    by auto
  have "replicate 4097 (0 :: uint64, [''a'']) = replicate 4096 (0, [''a'']) @ [(0, [''a''])]"
  proof -
    have "(4097 :: nat) = Suc 4096" by simp
    then show ?thesis by (simp only: replicate_append_same replicate_Suc)
  qed
  then have "AddPosts (replicate 4097 (0, [''a''])) emptyIndex = Inr index'"
    using run a by (simp only: AddPosts_append sum.case AddPosts.simps)
  moreover from s' have "findSetChunkForQuery index' ''a'' = Some chunk4097"
    by (simp add: findSetChunkForQuery_setsOf)
  ultimately show ?thesis by simp
qed


lemmas parse_defs = ParseQuery_def ParseQuery_loop.simps scanLiteral.simps Push_def Pop_def slice_def
  NewAndOperator_def NewOrOperator_def findSetChunkForQuery_def

lemma run_alpha:
  "AddPosts [(100, [''alpha'', ''beta''])] emptyIndex =
     Inr \<lparr>nextLocalId = 1,
          sets = Some [''alpha'' \<mapsto> \<lparr>firstChunk = PostChunk (zeroIDs[0 := 1]) 1 None, SyncRoot = False\<rparr>,
                       ''beta'' \<mapsto> \<lparr>firstChunk = PostChunk (zeroIDs[0 := 1]) 1 None, SyncRoot = False\<rparr>],
          idMap = Some [1 \<mapsto> 100]\<rparr>"
  by (simp add: ingest_defs emptyIndex_def fun_upd_twist)

lemma terminal_one: "TerminalOperator_NextChunk (Some (PostChunk (zeroIDs[0 := 1]) 1 None)) 0 zeroBuffer = Inl NilDereference"
  by (simp add: TerminalOperator_NextChunk_def TerminalOperator_loop.simps queryBufferSize_def ChunkSize_def)

lemma run_x:
  "AddPosts [(1, [''x''])] emptyIndex =
     Inr \<lparr>nextLocalId = 1,
          sets = Some [''x'' \<mapsto> \<lparr>firstChunk = PostChunk (zeroIDs[0 := 1]) 1 None, SyncRoot = False\<rparr>],
          idMap = Some [1 \<mapsto> 1]\<rparr>"
  by (simp add: ingest_defs emptyIndex_def)

lemma terminal_nil: "TerminalOperator_NextChunk None cc buf = Inr (buf, 0, None, cc)"
  by (simp add: TerminalOperator_NextChunk_def TerminalOperator_loop.simps)

lemma QueryNode_MoveNext_keeps_buffer:
  "QueryNode_MoveNext nc q = Some (Inr (b, q')) \<Longrightarrow> buffer q' = buffer q"
  by (auto simp: QueryNode_MoveNext_def andThen_def Let_def
        split: if_splits option.splits sum.splits prod.splits)

lemma TerminalOperator_loop_never_ends:
  "TerminalOperator_loop cur cc buf i = Inr (buf', n, cur', cc') \<Longrightarrow> cur \<noteq> None \<Longrightarrow>
   i < queryBufferSize \<Longrightarrow> n = queryBufferSize \<and> cur' \<noteq> None"
proof (induction cur cc buf i rule: TerminalOperator_loop.induct)
  case (1 cur cc buf i)
  from "1.prems"(2) obtain c where c: "cur = Some c" by auto
  let ?step = "if sint cc < 0
               then (case Next c of None \<Rightarrow> Inl NilDereference | Some n \<Rightarrow> Inr (n, Length n - 1))
               else Inr (c, cc)"
  from "1.prems"(1,3) c obtain c1 cc1 where st: "?step = Inr (c1, cc1)"
    and ok: "\<not> (sint cc1 < 0 \<or> sint ChunkSize \<le> sint cc1 \<or> i < 0)"
    and rec: "TerminalOperator_loop (Some c1) (cc1 - 1) (buf[nat i := IDs c1 ! nat (sint cc1)]) (i + 1)
                = Inr (buf', n, cur', cc')"
    by (subst (asm) TerminalOperator_loop.simps) (auto split: sum.splits if_splits prod.splits)
  show ?case
  proof (cases "i + 1 < queryBufferSize")
    case True
    from "1.IH" [OF _ c st refl ok rec _ True] "1.prems"(3) c show ?thesis by simp
  next
    case False
    with rec have "n = i + 1 \<and> cur' = Some c1"
      by (subst (asm) TerminalOperator_loop.simps) simp
    with False "1.prems"(3) show ?thesis by (simp add: queryBufferSize_def)
  qed
qed

lemma TerminalOperator_never_ends:
  "TerminalOperator_NextChunk (Some c) cc buf = Inr (buf', n, cur', cc') \<Longrightarrow>
   n = queryBufferSize \<and> cur' \<noteq> None"
  unfolding TerminalOperator_NextChunk_def
  using TerminalOperator_loop_never_ends [of "Some c" cc buf 0 buf' n cur' cc']
  by (simp add: queryBufferSize_def)

lemma parse_single_a:
  \<open>ParseQuery index ''"a"'' = Inr (newQueryNode (TerminalOperator (findSetChunkForQuery index ''a'') 0))\<close>
  by (simp add: ParseQuery_def ParseQuery_loop.simps scanLiteral.simps Push_def Pop_def slice_def)

lemma terminal_4097:
  "\<exists>buf'. TerminalOperator_NextChunk (Some chunk4097) 0 zeroBuffer = Inr (buf', 128, Some older, 3968) \<and>
      buf' ! 0 = 4097 \<and> buf' ! 1 = 4096 \<and> buf' ! 127 = 3970"
  by (simp add: TerminalOperator_NextChunk_def TerminalOperator_loop.simps queryBufferSize_def
        ChunkSize_def chunk4097_def older_def zeroBuffer_def del: upt_Suc)

lemma run_two:
  "map_sum id (\<lambda>index. findSetChunkForQuery index ''a'') (AddPosts [(1, [''a'']), (2, [''a''])] emptyIndex)
     = Inr (Some (PostChunk (zeroIDs[0 := 1, 1 := 2]) 2 None))"
  by (simp add: ingest_defs emptyIndex_def findSetChunkForQuery_def)


subsection \<open>Claims about queries\<close>

text \<open>
  C1: after \<^verbatim>\<open>AddPost\<close> has ingested a post with global id \<open>g\<close> and the terms
  \<open>t1, \<dots>, tn\<close>, the query \<^verbatim>\<open>"ti"\<close> with a limit of at least 1 returns a sequence containing
  \<open>g\<close>. The code does not: after \<^verbatim>\<open>AddPost(100, ["alpha", "beta"])\<close> on a fresh index the
  query \<^verbatim>\<open>"alpha"\<close> is parsed to a terminal on the head chunk with cursor 0, whose
  \<^verbatim>\<open>NextChunk\<close> writes the id 1, steps to the nil \<^verbatim>\<open>Next\<close> chunk and reads its length: a nil
  dereference. The driver, with any fuel that lets it make the call, ends in that panic
  and returns no ids.
\<close>

theorem single_term_recall_panics:
  \<open>map_sum id (\<lambda>index. ParseQuery index ''"alpha"'') (AddPosts [(100, [''alpha'', ''beta''])] emptyIndex)
     = Inr (Inr (newQueryNode (TerminalOperator (Some (PostChunk (zeroIDs[0 := 1]) 1 None)) 0))) \<and>
   TerminalOperator_NextChunk (Some (PostChunk (zeroIDs[0 := 1]) 1 None)) 0 zeroBuffer
     = Inl NilDereference \<and>
   queryAfter (Suc (Suc n)) [(100, [''alpha'', ''beta''])] ''"alpha"'' 10 = Some (Inl NilDereference)\<close>
proof -
  have p: \<open>map_sum id (\<lambda>index. ParseQuery index ''"alpha"'') (AddPosts [(100, [''alpha'', ''beta''])] emptyIndex)
     = Inr (Inr (newQueryNode (TerminalOperator (Some (PostChunk (zeroIDs[0 := 1]) 1 None)) 0)))\<close>
    unfolding run_alpha by (simp add: parse_defs FirstChunk_def)
  have q: \<open>queryAfter (Suc (Suc n)) [(100, [''alpha'', ''beta''])] ''"alpha"'' 10 = Some (Inl NilDereference)\<close>
    unfolding queryAfter_def run_alpha
    by (simp add: QueryPosts_def parse_defs FirstChunk_def MoveNext_def QueryNode_MoveNext_def
          newQueryNode_def Done_def doneLength_def terminal_one andThen_def)
  from p q terminal_one show ?thesis by blast
qed


text \<open>
  C3: every call of \<^verbatim>\<open>NextChunk\<close> fills up to 128 ids, in descending order, into the buffer
  its calling \<^verbatim>\<open>QueryNode\<close> supplies, and returns the count, 0 for the end of the stream;
  the caller's \<^verbatim>\<open>Current()\<close> then reads the filled value at the cursor. The code does not
  deliver the chunk: the buffer is a Go array passed by value. After 4097 posts with the
  term \<^verbatim>\<open>a\<close>, the root of the query \<^verbatim>\<open>"a"\<close> is a node on the head chunk; its first
  \<^verbatim>\<open>MoveNext\<close> calls \<^verbatim>\<open>NextChunk\<close>, which writes 4097, 4096, \<dots>, 3970 into its own copy and
  returns 128; the node's buffer is still all zero and \<^verbatim>\<open>Current()\<close> is 0, not 4097. And
  the OR of two empty streams returns the count 1, not 0.
\<close>

theorem chunk_not_delivered:
  \<open>map_sum id (\<lambda>index. ParseQuery index ''"a"'') (AddPosts (replicate 4097 (0, [''a''])) emptyIndex)
     = Inr (Inr (newQueryNode (TerminalOperator (Some chunk4097) 0))) \<and>
   (\<exists>buf'. TerminalOperator_NextChunk (Some chunk4097) 0 zeroBuffer = Inr (buf', 128, Some older, 3968) \<and>
      buf' ! 0 = 4097 \<and> buf' ! 1 = 4096 \<and> buf' ! 127 = 3970) \<and>
   MoveNext (Suc n) (newQueryNode (TerminalOperator (Some chunk4097) 0))
     = Some (Inr (True, QueryNode zeroBuffer 128 0 (TerminalOperator (Some older) 3968))) \<and>
   QueryNode_Current (QueryNode zeroBuffer 128 0 (TerminalOperator (Some older) 3968)) = Inr 0 \<and>
   (\<exists>buf' opr'. NextChunk (Suc (Suc (Suc n))) (NewOrOperator (TerminalOperator None 0) (TerminalOperator None 0))
        zeroBuffer = Some (Inr (buf', 1, opr')))\<close>
proof -
  have p: \<open>map_sum id (\<lambda>index. ParseQuery index ''"a"'') (AddPosts (replicate 4097 (0, [''a''])) emptyIndex)
     = Inr (Inr (newQueryNode (TerminalOperator (Some chunk4097) 0)))\<close>
    using run_4097 by (cases "AddPosts (replicate 4097 (0, [''a''])) emptyIndex") (simp_all add: parse_single_a)
  from terminal_4097 obtain buf' where
    t: "TerminalOperator_NextChunk (Some chunk4097) 0 zeroBuffer = Inr (buf', 128, Some older, 3968)"
    by blast
  have m: "MoveNext (Suc n) (newQueryNode (TerminalOperator (Some chunk4097) 0))
     = Some (Inr (True, QueryNode zeroBuffer 128 0 (TerminalOperator (Some older) 3968)))"
    by (simp add: MoveNext_def QueryNode_MoveNext_def newQueryNode_def Done_def doneLength_def t andThen_def)
  have c: "QueryNode_Current (QueryNode zeroBuffer 128 0 (TerminalOperator (Some older) 3968)) = Inr 0"
    by (simp add: QueryNode_Current_def queryBufferSize_def zeroBuffer_def)
  have o: "\<exists>buf' opr'. NextChunk (Suc (Suc (Suc n))) (NewOrOperator (TerminalOperator None 0) (TerminalOperator None 0))
        zeroBuffer = Some (Inr (buf', 1, opr'))"
    by (simp add: NewOrOperator_def newQueryNode_def Started_def beforeStartedLength_def Done_def
          doneLength_def queryBufferSize_def current_def QueryNode_Current_def QueryNode_MoveNext_def
          TerminalOperator_NextChunk_def TerminalOperator_loop.simps andThen_def zeroBuffer_def)
  from p terminal_4097 m c o show ?thesis by blast
qed


text \<open>
  C4: a terminal built by the parser for a known term starts at the head chunk with its
  cursor at \<^verbatim>\<open>head.count - 1\<close>, walks backward, crosses to \<^verbatim>\<open>chunk.next\<close> when the cursor
  goes negative, and returns 0 once no chunk remains. The code does neither end of it:
  after two posts with the term \<^verbatim>\<open>a\<close> the parser builds the terminal with cursor 0 where
  \<^verbatim>\<open>head.count - 1\<close> is 1, and \<^verbatim>\<open>NextChunk\<close> panics with a nil dereference when it crosses
  from the last chunk, from cursor 0 and from cursor 1 alike, instead of returning 0.
\<close>

theorem terminal_reverse_scan_fails:
  \<open>map_sum id (\<lambda>index. ParseQuery index ''"a"'') (AddPosts [(1, [''a'']), (2, [''a''])] emptyIndex)
     = Inr (Inr (newQueryNode (TerminalOperator (Some (PostChunk (zeroIDs[0 := 1, 1 := 2]) 2 None)) 0))) \<and>
   Length (PostChunk (zeroIDs[0 := 1, 1 := 2]) 2 None) - 1 = 1 \<and>
   TerminalOperator_NextChunk (Some (PostChunk (zeroIDs[0 := 1, 1 := 2]) 2 None)) 0 zeroBuffer
     = Inl NilDereference \<and>
   TerminalOperator_NextChunk (Some (PostChunk (zeroIDs[0 := 1, 1 := 2]) 2 None)) 1 zeroBuffer
     = Inl NilDereference\<close>
proof -
  have p: \<open>map_sum id (\<lambda>index. ParseQuery index ''"a"'') (AddPosts [(1, [''a'']), (2, [''a''])] emptyIndex)
     = Inr (Inr (newQueryNode (TerminalOperator (Some (PostChunk (zeroIDs[0 := 1, 1 := 2]) 2 None)) 0)))\<close>
    using run_two by (cases "AddPosts [(1, [''a'']), (2, [''a''])] emptyIndex") (simp_all add: parse_single_a)
  have t0: "TerminalOperator_NextChunk (Some (PostChunk (zeroIDs[0 := 1, 1 := 2]) 2 None)) 0 zeroBuffer
     = Inl NilDereference"
    by (simp add: TerminalOperator_NextChunk_def TerminalOperator_loop.simps queryBufferSize_def ChunkSize_def)
  have t1: "TerminalOperator_NextChunk (Some (PostChunk (zeroIDs[0 := 1, 1 := 2]) 2 None)) 1 zeroBuffer
     = Inl NilDereference"
    by (simp add: TerminalOperator_NextChunk_def TerminalOperator_loop.simps queryBufferSize_def ChunkSize_def)
  from p t0 t1 show ?thesis by simp
qed


text \<open>
  C9: for all terms \<open>x\<close> and \<open>y\<close> and every ingest history, the query for \<open>x\<close>, \<open>y\<close>, \<^verbatim>\<open>&\<close>
  and the query for \<open>y\<close>, \<open>x\<close>, \<^verbatim>\<open>&\<close> produce the same set of result ids. The code does not
  treat the two alike: after \<^verbatim>\<open>AddPost(1, ["x"])\<close>, with \<open>y\<close> unknown, \<^verbatim>\<open>"x""y"&\<close> returns the
  empty sequence (the left child, the unknown \<open>y\<close>, ends at once and the right child is
  never pulled) and \<^verbatim>\<open>"y""x"&\<close> panics with a nil dereference (the left child is now the
  terminal of \<open>x\<close>). Written with spaces, as \<^verbatim>\<open>"x" "y" &\<close>, both queries are parse errors
  at the first space.
\<close>

theorem and_not_commutative:
  \<open>queryAfter (Suc (Suc (Suc n))) [(1, [''x''])] ''"x""y"&'' 10 = Some (Inr []) \<and>
   queryAfter (Suc (Suc (Suc n))) [(1, [''x''])] ''"y""x"&'' 10 = Some (Inl NilDereference) \<and>
   ParseQuery index ''"x" "y" &'' = Inl (ParseError 3 ''Unexpected character'') \<and>
   ParseQuery index ''"y" "x" &'' = Inl (ParseError 3 ''Unexpected character'')\<close>
  unfolding queryAfter_def run_x
  by (simp add: QueryPosts_def parse_defs FirstChunk_def MoveNext_def QueryNode_MoveNext_def
          newQueryNode_def Done_def doneLength_def terminal_one terminal_nil andThen_def
          nextMatch_def translate_def queryBufferSize_def)

end
